theory Spec2Isabelle
  imports Main "HOL-Library.Word" "HOL-Library.Product_Lexorder"
begin

section \<open>Values of the source language\<close>

text \<open>
  A \<open>Buffer\<close> is a list of bytes. A JavaScript string is a list of UTF-16 code units,
  which is what \<open>length\<close> counts and what \<open>codePointAt\<close> reads. A \<open>bigint\<close> is an
  \<open>int\<close>; a \<open>number\<close> holding an integer is an \<open>int\<close> as well (the strict helpers
  turn it into a \<open>bigint\<close> first). The bounded integers of \<open>./src/integer\<close> are
  natural numbers below their bound.
\<close>

type_synonym byte = "8 word"
type_synonym js_string = "16 word list"

definition u8_MAX :: nat where "u8_MAX = 2 ^ 8 - 1"
definition u32_MAX :: nat where "u32_MAX = 2 ^ 32 - 1"
definition u64_MAX :: nat where "u64_MAX = 2 ^ 64 - 1"
definition u128_MAX :: nat where "u128_MAX = 2 ^ 128 - 1"

text \<open>Modelled from the spec: the constant \<open>MAX_DIVISIBILITY\<close> of \<open>./src/constants\<close>,
  which section 6 of the specification fixes at 38.\<close>

definition MAX_DIVISIBILITY :: nat where "MAX_DIVISIBILITY = 38"

datatype error =
    U8_overflow
  | U32_overflow
  | U64_overflow
  | U128_overflow
  | Symbol_must_be_one_code_point
  | Divisibility_greater_than_max
  | Terms_overflow
  | Rune_name_error
  | Encipher_error

definition bind_error :: "error + 'a \<Rightarrow> ('a \<Rightarrow> error + 'b) \<Rightarrow> error + 'b" where
  "bind_error m f = (case m of Inl e \<Rightarrow> Inl e | Inr x \<Rightarrow> f x)"

subsection \<open>The strict conversions (index.ts, lines 105-133)\<close>

definition u8Strict :: "int \<Rightarrow> error + nat" where
  "u8Strict n = (if n < 0 \<or> n > int u8_MAX then Inl U8_overflow else Inr (nat n))"

definition u32Strict :: "int \<Rightarrow> error + nat" where
  "u32Strict n = (if n < 0 \<or> n > int u32_MAX then Inl U32_overflow else Inr (nat n))"

definition u64Strict :: "int \<Rightarrow> error + nat" where
  "u64Strict n = (if n < 0 \<or> n > int u64_MAX then Inl U64_overflow else Inr (nat n))"

definition u128Strict :: "int \<Rightarrow> error + nat" where
  "u128Strict n = (if n < 0 \<or> n > int u128_MAX then Inl U128_overflow else Inr (nat n))"

text \<open>\<open>x !== undefined ? Some(x).map(f) : None\<close>, where \<open>f\<close> may throw.\<close>

definition strict_opt :: "(int \<Rightarrow> error + nat) \<Rightarrow> int option \<Rightarrow> error + nat option" where
  "strict_opt f x = (case x of None \<Rightarrow> Inr None | Some n \<Rightarrow> bind_error (f n) (\<lambda>v. Inr (Some v)))"

text \<open>\<open>xs.map(f)\<close>, where \<open>f\<close> may throw: the first failure ends the whole map.\<close>

fun map_error :: "('a \<Rightarrow> error + 'b) \<Rightarrow> 'a list \<Rightarrow> error + 'b list" where
  "map_error f [] = Inr []"
| "map_error f (x # xs) =
     bind_error (f x) (\<lambda>y. bind_error (map_error f xs) (\<lambda>ys. Inr (y # ys)))"

subsection \<open>The types of index.ts\<close>

record RuneIdSpec =
  block :: int
  tx :: int

record EdictSpec =
  edict_id :: RuneIdSpec
  edict_amount :: int
  edict_output :: int

record RangeSpec =
  range_start :: "int option"
  range_end :: "int option"

record TermsSpec =
  terms_amount :: "int option"
  terms_cap :: "int option"
  terms_height :: "RangeSpec option"
  terms_offset :: "RangeSpec option"

text \<open>\<open>RuneEtchingSpec\<close> is declared in \<open>./src/indexer\<close>; its fields are the ones
  \<open>encodeRunestone\<close> reads and \<open>tryDecodeRunestone\<close> writes, all optional.\<close>

record RuneEtchingSpec =
  runeName :: "js_string option"
  divisibility :: "int option"
  premine :: "int option"
  symbol :: "js_string option"
  terms :: "TermsSpec option"
  turbo :: "bool option"

record RunestoneSpec =
  mint :: "RuneIdSpec option"
  pointer :: "int option"
  etching :: "RuneEtchingSpec option"
  edicts :: "EdictSpec list option"

record Cenotaph =
  flaws :: "string list"
  cenotaph_etching :: "js_string option"
  cenotaph_mint :: "RuneIdSpec option"

subsection \<open>The types of the library\<close>

record RuneId =
  id_block :: nat
  id_tx :: nat

record Edict =
  ed_id :: RuneId
  ed_amount :: nat
  ed_output :: nat

record Terms =
  tm_amount :: "nat option"
  tm_cap :: "nat option"
  tm_height :: "nat option \<times> nat option"
  tm_offset :: "nat option \<times> nat option"

record Etching =
  et_divisibility :: "nat option"
  et_rune :: "nat option"
  et_spacers :: "nat option"
  et_symbol :: "js_string option"
  et_terms :: "Terms option"
  et_premine :: "nat option"
  et_turbo :: bool

record Runestone =
  rs_mint :: "RuneId option"
  rs_pointer :: "nat option"
  rs_edicts :: "Edict list"
  rs_etching :: "Etching option"

datatype FlawEnum =
    EDICT_OUTPUT
  | EDICT_RUNE_ID
  | INVALID_SCRIPT
  | OPCODE
  | SUPPLY_OVERFLOW
  | TRAILING_INTEGERS
  | TRUNCATED_FIELD
  | UNRECOGNIZED_EVEN_TAG
  | UNRECOGNIZED_FLAG
  | VARINT

record LibCenotaph =
  cn_flaws :: "FlawEnum list"
  cn_etching :: "nat option"
  cn_mint :: "RuneId option"

datatype Artifact = ArtRunestone Runestone | ArtCenotaph LibCenotaph

text \<open>A transaction, as far as the decoder reads it: the scripts of its outputs.\<close>

record RunestoneTx =
  vout :: "byte list list"

section \<open>JavaScript strings\<close>

definition is_high_surrogate :: "16 word \<Rightarrow> bool" where
  "is_high_surrogate u = (0xD800 \<le> unat u \<and> unat u \<le> 0xDBFF)"

definition is_low_surrogate :: "16 word \<Rightarrow> bool" where
  "is_low_surrogate u = (0xDC00 \<le> unat u \<and> unat u \<le> 0xDFFF)"

definition surrogate_pair :: "16 word \<Rightarrow> 16 word \<Rightarrow> nat" where
  "surrogate_pair hi lo = 0x10000 + (unat hi - 0xD800) * 0x400 + (unat lo - 0xDC00)"

text \<open>\<open>s.codePointAt(0)\<close>: \<open>None\<close> is \<open>undefined\<close>.\<close>

fun codePointAt0 :: "js_string \<Rightarrow> nat option" where
  "codePointAt0 [] = None"
| "codePointAt0 [a] = Some (unat a)"
| "codePointAt0 (a # b # rest) =
     (if is_high_surrogate a \<and> is_low_surrogate b then Some (surrogate_pair a b)
      else Some (unat a))"

text \<open>\<open>String.fromCodePoint(cp)\<close> for \<open>cp \<le> 0x10FFFF\<close>.\<close>

definition fromCodePoint :: "nat \<Rightarrow> js_string" where
  "fromCodePoint cp =
     (if cp < 0x10000 then [of_nat cp]
      else [of_nat (0xD800 + (cp - 0x10000) div 0x400),
            of_nat (0xDC00 + (cp - 0x10000) mod 0x400)])"

text \<open>The code points of a string, as an iteration over the string yields them: a high
  surrogate followed by a low one is one code point, every other code unit is one by
  itself.\<close>

fun code_points :: "js_string \<Rightarrow> nat list" where
  "code_points [] = []"
| "code_points [a] = [unat a]"
| "code_points (a # b # rest) =
     (if is_high_surrogate a \<and> is_low_surrogate b then surrogate_pair a b # code_points rest
      else unat a # code_points (b # rest))"

section \<open>Rune names\<close>

text \<open>Modelled from the spec: \<open>Rune\<close> and \<open>SpacedRune\<close> of \<open>./src/rune\<close> and
  \<open>./src/spacedrune\<close> are not among the sources. Section 4.B: a name is made of the
  letters A to Z; \<open>rune_to_name\<close> takes \<open>n % 26\<close> as the index of a letter and goes on
  with \<open>n / 26 - 1\<close> until that falls below zero; the number of a name is the reverse.
  Section 3: a name has at least one letter, its number is a 128-bit integer, and bit
  \<open>i\<close> of the 32-bit spacer mask stands for a separator between letters \<open>i\<close> and
  \<open>i + 1\<close>, so a separator before the first letter, a second separator at the same
  place and a separator after the last letter are ill-formed.\<close>

definition is_letter :: "16 word \<Rightarrow> bool" where
  "is_letter c = (65 \<le> unat c \<and> unat c \<le> 90)"

definition letter_index :: "16 word \<Rightarrow> nat" where
  "letter_index c = unat c - 65"

definition letter :: "nat \<Rightarrow> 16 word" where
  "letter k = of_nat (65 + k)"

definition bullet :: "16 word" where
  "bullet = 0x2022"

function rune_to_name :: "nat \<Rightarrow> js_string" where
  "rune_to_name n =
     (if n < 26 then [letter n] else rune_to_name (n div 26 - 1) @ [letter (n mod 26)])"
  by pat_completeness auto
termination
  by (relation "measure (\<lambda>n. n)") auto

fun name_value :: "nat \<Rightarrow> js_string \<Rightarrow> nat" where
  "name_value x [] = x"
| "name_value x (c # cs) = name_value ((x + 1) * 26 + letter_index c) cs"

definition Rune_fromString :: "js_string \<Rightarrow> nat option" where
  "Rune_fromString s =
     (case s of
        [] \<Rightarrow> None
      | c # cs \<Rightarrow>
          (if list_all is_letter (c # cs)
           then (let v = name_value (letter_index c) cs
                 in if v \<le> u128_MAX then Some v else None)
           else None))"

record SpacedRune =
  sr_rune :: nat
  sr_spacers :: nat

fun scan_spaced :: "js_string \<Rightarrow> js_string \<Rightarrow> nat \<Rightarrow> (js_string \<times> nat) option" where
  "scan_spaced [] letters spacers = Some (letters, spacers)"
| "scan_spaced (c # cs) letters spacers =
     (if is_letter c then scan_spaced cs (letters @ [c]) spacers
      else if c = bullet then
        (if letters = [] \<or> 32 < length letters then None
         else if bit spacers (length letters - 1) then None
         else scan_spaced cs letters (spacers + 2 ^ (length letters - 1)))
      else None)"

definition SpacedRune_fromString :: "js_string \<Rightarrow> error + SpacedRune" where
  "SpacedRune_fromString s =
     (case scan_spaced s [] 0 of
        None \<Rightarrow> Inl Rune_name_error
      | Some (letters, spacers) \<Rightarrow>
          (if letters = [] \<or> 2 ^ (length letters - 1) \<le> spacers then Inl Rune_name_error
           else (case Rune_fromString letters of
                   None \<Rightarrow> Inl Rune_name_error
                 | Some v \<Rightarrow> Inr \<lparr>sr_rune = v, sr_spacers = spacers\<rparr>)))"

fun render_spaced :: "nat \<Rightarrow> nat \<Rightarrow> js_string \<Rightarrow> js_string" where
  "render_spaced spacers i [] = []"
| "render_spaced spacers i [c] = [c]"
| "render_spaced spacers i (c # d # cs) =
     c # (if bit spacers i then [bullet] else []) @ render_spaced spacers (Suc i) (d # cs)"

definition SpacedRune_toString :: "SpacedRune \<Rightarrow> js_string" where
  "SpacedRune_toString sr = render_spaced (sr_spacers sr) 0 (rune_to_name (sr_rune sr))"

text \<open>Modelled from the spec: the getter \<open>commitment\<close> of \<open>Rune\<close>. Section 4.G: the
  128-bit value in little-endian order, without its leading (most significant) zero
  bytes.\<close>

definition le_bytes16 :: "nat \<Rightarrow> byte list" where
  "le_bytes16 v = map (\<lambda>i. of_nat (v div 256 ^ i mod 256)) [0..<16]"

definition commitment :: "nat \<Rightarrow> byte list" where
  "commitment v = rev (dropWhile (\<lambda>b. b = 0) (rev (le_bytes16 v)))"

section \<open>The encoder of the library\<close>

subsection \<open>Varints\<close>

text \<open>Modelled from the spec: \<open>u128.encodeVarInt\<close> of \<open>./src/integer\<close>. Section 4.C:
  while \<open>v \<ge> 0x80\<close>, emit \<open>(v & 0x7F) | 0x80\<close>, then \<open>v >>= 7\<close>; emit the final byte
  with the high bit clear.\<close>

function encodeVarInt :: "nat \<Rightarrow> byte list" where
  "encodeVarInt v =
     (if 128 \<le> v then of_nat (v mod 128 + 128) # encodeVarInt (v div 128) else [of_nat v])"
  by pat_completeness auto
termination
  by (relation "measure (\<lambda>v. v)") auto

subsection \<open>Tags and flags\<close>

text \<open>Section 4.E of the specification fixes the numbers.\<close>

abbreviation (input) Tag_Body :: nat where "Tag_Body \<equiv> 0"
abbreviation (input) Tag_Divisibility :: nat where "Tag_Divisibility \<equiv> 1"
abbreviation (input) Tag_Flags :: nat where "Tag_Flags \<equiv> 2"
abbreviation (input) Tag_Spacers :: nat where "Tag_Spacers \<equiv> 3"
abbreviation (input) Tag_Rune :: nat where "Tag_Rune \<equiv> 4"
abbreviation (input) Tag_Symbol :: nat where "Tag_Symbol \<equiv> 5"
abbreviation (input) Tag_Premine :: nat where "Tag_Premine \<equiv> 6"
abbreviation (input) Tag_Cap :: nat where "Tag_Cap \<equiv> 8"
abbreviation (input) Tag_Amount :: nat where "Tag_Amount \<equiv> 10"
abbreviation (input) Tag_HeightStart :: nat where "Tag_HeightStart \<equiv> 12"
abbreviation (input) Tag_HeightEnd :: nat where "Tag_HeightEnd \<equiv> 14"
abbreviation (input) Tag_OffsetStart :: nat where "Tag_OffsetStart \<equiv> 16"
abbreviation (input) Tag_OffsetEnd :: nat where "Tag_OffsetEnd \<equiv> 18"
abbreviation (input) Tag_Mint :: nat where "Tag_Mint \<equiv> 20"
abbreviation (input) Tag_Pointer :: nat where "Tag_Pointer \<equiv> 22"

abbreviation (input) Flag_Etching :: nat where "Flag_Etching \<equiv> 0"
abbreviation (input) Flag_Terms :: nat where "Flag_Terms \<equiv> 1"
abbreviation (input) Flag_Turbo :: nat where "Flag_Turbo \<equiv> 2"
abbreviation (input) Flag_Cenotaph :: nat where "Flag_Cenotaph \<equiv> 7"

subsection \<open>Rune ids\<close>

text \<open>Modelled from the spec: \<open>RuneId.delta\<close> of \<open>./src/runeid\<close>. Section 4.H:
  \<open>block_delta = next.block - prev.block\<close>; if \<open>block_delta = 0\<close> then
  \<open>tx_delta = next.tx - prev.tx\<close> else \<open>tx_delta = next.tx\<close>. The subtractions are
  checked: a difference below zero is no delta.\<close>

definition delta :: "RuneId \<Rightarrow> RuneId \<Rightarrow> (nat \<times> nat) option" where
  "delta prev next =
     (if id_block next < id_block prev then None
      else if id_block next = id_block prev then
        (if id_tx next < id_tx prev then None else Some (0, id_tx next - id_tx prev))
      else Some (id_block next - id_block prev, id_tx next))"

definition rune_id_key :: "RuneId \<Rightarrow> nat \<times> nat" where
  "rune_id_key i = (id_block i, id_tx i)"

subsection \<open>The message\<close>

text \<open>Modelled from the spec: \<open>Runestone.encipher\<close> of \<open>./src/runestone\<close>. Section 4.G:
  the flags first, as one pair of varints, then the fields in ascending order of their
  tags, then the body sentinel, then the edicts in ascending order of their ids, each id
  as a delta to the one before. An absent field is not written; the flags are written
  for an etching, the body for at least one edict. The symbol travels as its code
  point and the mint as two values of one tag (scenario S3).\<close>

definition field :: "nat \<Rightarrow> nat option \<Rightarrow> (nat \<times> nat) list" where
  "field tag v = (case v of None \<Rightarrow> [] | Some x \<Rightarrow> [(tag, x)])"

definition etching_flags :: "Etching \<Rightarrow> nat" where
  "etching_flags et =
     2 ^ Flag_Etching
     + (if et_terms et \<noteq> None then 2 ^ Flag_Terms else 0)
     + (if et_turbo et then 2 ^ Flag_Turbo else 0)"

definition terms_fields :: "Terms \<Rightarrow> (nat \<times> nat) list" where
  "terms_fields t =
     field Tag_Cap (tm_cap t)
     @ field Tag_Amount (tm_amount t)
     @ field Tag_HeightStart (fst (tm_height t))
     @ field Tag_HeightEnd (snd (tm_height t))
     @ field Tag_OffsetStart (fst (tm_offset t))
     @ field Tag_OffsetEnd (snd (tm_offset t))"

definition etching_fields :: "Etching \<Rightarrow> (nat \<times> nat) list" where
  "etching_fields et =
     (Tag_Flags, etching_flags et)
     # field Tag_Divisibility (et_divisibility et)
     @ field Tag_Spacers (et_spacers et)
     @ field Tag_Rune (et_rune et)
     @ field Tag_Symbol (Option.bind (et_symbol et) codePointAt0)
     @ field Tag_Premine (et_premine et)
     @ (case et_terms et of None \<Rightarrow> [] | Some t \<Rightarrow> terms_fields t)"

definition mint_fields :: "RuneId option \<Rightarrow> (nat \<times> nat) list" where
  "mint_fields m =
     (case m of None \<Rightarrow> [] | Some i \<Rightarrow> [(Tag_Mint, id_block i), (Tag_Mint, id_tx i)])"

definition runestone_fields :: "Runestone \<Rightarrow> (nat \<times> nat) list" where
  "runestone_fields rs =
     (case rs_etching rs of None \<Rightarrow> [] | Some et \<Rightarrow> etching_fields et)
     @ mint_fields (rs_mint rs)
     @ field Tag_Pointer (rs_pointer rs)"

fun field_integers :: "(nat \<times> nat) list \<Rightarrow> nat list" where
  "field_integers [] = []"
| "field_integers ((tag, v) # fs) = tag # v # field_integers fs"

fun edict_integers :: "RuneId \<Rightarrow> Edict list \<Rightarrow> nat list option" where
  "edict_integers prev [] = Some []"
| "edict_integers prev (e # es) =
     (case delta prev (ed_id e) of
        None \<Rightarrow> None
      | Some (block_delta, tx_delta) \<Rightarrow>
          map_option (\<lambda>rest. block_delta # tx_delta # ed_amount e # ed_output e # rest)
            (edict_integers (ed_id e) es))"

definition body_integers :: "Edict list \<Rightarrow> nat list option" where
  "body_integers es =
     (if es = [] then Some []
      else map_option (\<lambda>ints. Tag_Body # ints)
             (edict_integers \<lparr>id_block = 0, id_tx = 0\<rparr>
                (sort_key (\<lambda>e. rune_id_key (ed_id e)) es)))"

definition message_integers :: "Runestone \<Rightarrow> nat list option" where
  "message_integers rs =
     map_option (\<lambda>body. field_integers (runestone_fields rs) @ body)
       (body_integers (rs_edicts rs))"

subsection \<open>The script\<close>

text \<open>The payload is cut into pushes of at most 520 bytes, the largest element of a
  Bitcoin script, and each is written with the shortest push opcode: the length itself
  up to 75 bytes, \<open>OP_PUSHDATA1\<close> and a length byte up to 255, \<open>OP_PUSHDATA2\<close> and two
  length bytes, low byte first, beyond. Section 6: the script starts with \<open>OP_RETURN\<close>
  and the magic opcode \<open>OP_13 = 0x5d\<close>.\<close>

abbreviation (input) OP_RETURN :: byte where "OP_RETURN \<equiv> 0x6a"
abbreviation (input) OP_13 :: byte where "OP_13 \<equiv> 0x5d"
abbreviation (input) OP_PUSHDATA1 :: byte where "OP_PUSHDATA1 \<equiv> 0x4c"
abbreviation (input) OP_PUSHDATA2 :: byte where "OP_PUSHDATA2 \<equiv> 0x4d"
abbreviation (input) OP_PUSHDATA4 :: byte where "OP_PUSHDATA4 \<equiv> 0x4e"

definition MAX_SCRIPT_ELEMENT_SIZE :: nat where "MAX_SCRIPT_ELEMENT_SIZE = 520"

function chunks :: "byte list \<Rightarrow> byte list list" where
  "chunks p =
     (if p = [] then []
      else take MAX_SCRIPT_ELEMENT_SIZE p # chunks (drop MAX_SCRIPT_ELEMENT_SIZE p))"
  by pat_completeness auto
termination
  by (relation "measure length") (auto simp: MAX_SCRIPT_ELEMENT_SIZE_def)

definition push_bytes :: "byte list \<Rightarrow> byte list" where
  "push_bytes d =
     (let n = length d in
      if n \<le> 75 then of_nat n # d
      else if n \<le> 255 then OP_PUSHDATA1 # of_nat n # d
      else OP_PUSHDATA2 # of_nat (n mod 256) # of_nat (n div 256) # d)"

definition script_of_payload :: "byte list \<Rightarrow> byte list" where
  "script_of_payload p = OP_RETURN # OP_13 # concat (map push_bytes (chunks p))"

definition encipher :: "Runestone \<Rightarrow> byte list option" where
  "encipher rs =
     map_option (\<lambda>ints. script_of_payload (concat (map encodeVarInt ints)))
       (message_integers rs)"

section \<open>encodeRunestone (index.ts, lines 143-233)\<close>

record Encoded =
  encodedRunestone :: "byte list"
  etchingCommitment :: "byte list option"

text \<open>Lines 147-149.\<close>

definition encode_mint :: "RuneIdSpec option \<Rightarrow> error + RuneId option" where
  "encode_mint m =
     (case m of
        None \<Rightarrow> Inr None
      | Some i \<Rightarrow>
          bind_error (u64Strict (block i)) (\<lambda>b.
          bind_error (u32Strict (tx i)) (\<lambda>t.
          Inr (Some \<lparr>id_block = b, id_tx = t\<rparr>))))"

text \<open>Lines 153-157.\<close>

definition encode_edict :: "EdictSpec \<Rightarrow> error + Edict" where
  "encode_edict e =
     bind_error (u64Strict (block (edict_id e))) (\<lambda>b.
     bind_error (u32Strict (tx (edict_id e))) (\<lambda>t.
     bind_error (u128Strict (edict_amount e)) (\<lambda>a.
     bind_error (u32Strict (edict_output e)) (\<lambda>out.
     Inr \<lparr>ed_id = \<lparr>id_block = b, id_tx = t\<rparr>, ed_amount = a, ed_output = out\<rparr>))))"

text \<open>Lines 199-214: \<open>termsSpec.height\<close> and \<open>termsSpec.offset\<close>.\<close>

definition encode_range :: "RangeSpec option \<Rightarrow> error + (nat option \<times> nat option)" where
  "encode_range r =
     (case r of
        None \<Rightarrow> Inr (None, None)
      | Some h \<Rightarrow>
          bind_error (strict_opt u64Strict (range_start h)) (\<lambda>s.
          bind_error (strict_opt u64Strict (range_end h)) (\<lambda>e.
          Inr (s, e))))"

text \<open>Lines 193-221.\<close>

definition encode_terms :: "TermsSpec option \<Rightarrow> error + Terms option" where
  "encode_terms ts =
     (case ts of
        None \<Rightarrow> Inr None
      | Some termsSpec \<Rightarrow>
          bind_error (strict_opt u128Strict (terms_amount termsSpec)) (\<lambda>amount.
          bind_error (strict_opt u128Strict (terms_cap termsSpec)) (\<lambda>cap.
          bind_error (encode_range (terms_height termsSpec)) (\<lambda>height.
          bind_error (encode_range (terms_offset termsSpec)) (\<lambda>offset.
          if amount \<noteq> None \<and> cap \<noteq> None \<and> the amount * the cap > u128_MAX
          then Inl Terms_overflow
          else Inr (Some \<lparr>tm_amount = amount, tm_cap = cap,
                         tm_height = height, tm_offset = offset\<rparr>))))))"

text \<open>Lines 164-166: an empty \<open>runeName\<close> is falsy and read as absent.\<close>

definition encode_spaced_rune :: "js_string option \<Rightarrow> error + SpacedRune option" where
  "encode_spaced_rune name =
     (case name of
        None \<Rightarrow> Inr None
      | Some s \<Rightarrow>
          (if s = [] then Inr None
           else bind_error (SpacedRune_fromString s) (\<lambda>sr. Inr (Some sr))))"

text \<open>Lines 169-177: the test on the symbol; an empty symbol is falsy and passes.\<close>

definition symbol_ok :: "js_string option \<Rightarrow> bool" where
  "symbol_ok spec_symbol =
     (case spec_symbol of
        None \<Rightarrow> True
      | Some s \<Rightarrow>
          s = [] \<or> length s = 1 \<or> (length s = 2 \<and> the (codePointAt0 s) \<ge> 0x10000))"

text \<open>Lines 183-186.\<close>

definition encode_spacers :: "SpacedRune option \<Rightarrow> error + nat option" where
  "encode_spacers spacedRune =
     (case spacedRune of
        None \<Rightarrow> Inr None
      | Some sr \<Rightarrow>
          (if sr_spacers sr \<noteq> 0
           then bind_error (u32Strict (int (sr_spacers sr))) (\<lambda>v. Inr (Some v))
           else Inr None))"

text \<open>Lines 161-227: the etching and its commitment.\<close>

definition encode_etching ::
  "RuneEtchingSpec \<Rightarrow> error + (Etching \<times> byte list option)" where
  "encode_etching etchingSpec =
     bind_error (encode_spaced_rune (runeName etchingSpec)) (\<lambda>spacedRune.
     let rune = map_option sr_rune spacedRune in
     if \<not> symbol_ok (symbol etchingSpec) then Inl Symbol_must_be_one_code_point
     else
     bind_error (strict_opt u8Strict (divisibility etchingSpec)) (\<lambda>divisibility.
     bind_error (strict_opt u128Strict (premine etchingSpec)) (\<lambda>premine.
     bind_error (encode_spacers spacedRune) (\<lambda>spacers.
     let symbol = (case symbol etchingSpec of
                     None \<Rightarrow> None
                   | Some s \<Rightarrow> if s = [] then None else Some s) in
     if divisibility \<noteq> None \<and> the divisibility > MAX_DIVISIBILITY
     then Inl Divisibility_greater_than_max
     else
     bind_error (encode_terms (terms etchingSpec)) (\<lambda>terms.
     let turbo = (case turbo etchingSpec of None \<Rightarrow> False | Some b \<Rightarrow> b) in
     Inr (\<lparr>et_divisibility = divisibility, et_rune = rune, et_spacers = spacers,
           et_symbol = symbol, et_terms = terms, et_premine = premine,
           et_turbo = turbo\<rparr>,
          map_option commitment rune))))))"

text \<open>Lines 147-227: the \<open>Runestone\<close> handed to \<open>encipher\<close>, and the commitment.\<close>

definition build_runestone :: "RunestoneSpec \<Rightarrow> error + (Runestone \<times> byte list option)" where
  "build_runestone runestone =
     bind_error (encode_mint (mint runestone)) (\<lambda>mint.
     bind_error (strict_opt u32Strict (pointer runestone)) (\<lambda>pointer.
     bind_error (map_error encode_edict
                   (case edicts runestone of None \<Rightarrow> [] | Some es \<Rightarrow> es)) (\<lambda>edicts.
     bind_error (case etching runestone of
                   None \<Rightarrow> Inr (None, None)
                 | Some etchingSpec \<Rightarrow>
                     bind_error (encode_etching etchingSpec) (\<lambda>(et, c). Inr (Some et, c)))
       (\<lambda>(etching, etchingCommitment).
     Inr (\<lparr>rs_mint = mint, rs_pointer = pointer, rs_edicts = edicts,
           rs_etching = etching\<rparr>,
          etchingCommitment)))))"

text \<open>Lines 229-232.\<close>

definition encodeRunestone :: "RunestoneSpec \<Rightarrow> error + Encoded" where
  "encodeRunestone runestone =
     bind_error (build_runestone runestone) (\<lambda>(rs, etchingCommitment).
     case encipher rs of
       None \<Rightarrow> Inl Encipher_error
     | Some bytes \<Rightarrow>
         Inr \<lparr>encodedRunestone = bytes, etchingCommitment = etchingCommitment\<rparr>)"

section \<open>The decoder of the library\<close>

text \<open>Modelled from the spec: \<open>Runestone.decipher\<close> of \<open>./src/runestone\<close>, with the
  script reader, the varint reader, the message parser and the builder it calls
  (sections 4.C to 4.F and 4.H of the specification).\<close>

subsection \<open>The payload of a transaction\<close>

text \<open>Section 4.D: the first output whose script begins with \<open>OP_RETURN\<close> and
  \<open>OP_13\<close> carries the runestone, and no later output is tried. The data pushes that
  follow are concatenated; the first opcode that is no push gives the flaw \<open>opcode\<close>, the
  first push that ends before its announced length gives \<open>invalid_script\<close>.
  \<open>pushes_from k\<close> reads a script of which the next \<open>k\<close> bytes belong to a push.\<close>

datatype Payload = Valid "byte list" | Invalid FlawEnum

fun pushes_from :: "nat \<Rightarrow> byte list \<Rightarrow> FlawEnum + byte list" where
  "pushes_from (Suc k) [] = Inl INVALID_SCRIPT"
| "pushes_from (Suc k) (b # bs) = map_sum id ((#) b) (pushes_from k bs)"
| "pushes_from 0 [] = Inr []"
| "pushes_from 0 (opc # bs) =
     (if unat opc \<le> 75 then pushes_from (unat opc) bs
      else if opc = OP_PUSHDATA1 then
        (case bs of
           l0 # bs' \<Rightarrow> pushes_from (unat l0) bs'
         | _ \<Rightarrow> Inl INVALID_SCRIPT)
      else if opc = OP_PUSHDATA2 then
        (case bs of
           l0 # l1 # bs' \<Rightarrow> pushes_from (unat l0 + 256 * unat l1) bs'
         | _ \<Rightarrow> Inl INVALID_SCRIPT)
      else if opc = OP_PUSHDATA4 then
        (case bs of
           l0 # l1 # l2 # l3 # bs' \<Rightarrow>
             pushes_from (unat l0 + 256 * unat l1 + 65536 * unat l2 + 16777216 * unat l3) bs'
         | _ \<Rightarrow> Inl INVALID_SCRIPT)
      else Inl OPCODE)"

fun payload :: "byte list list \<Rightarrow> Payload option" where
  "payload [] = None"
| "payload (script # outputs) =
     (case script of
        a # b # instructions \<Rightarrow>
          (if a = OP_RETURN \<and> b = OP_13
           then Some (case pushes_from 0 instructions of
                        Inl flaw \<Rightarrow> Invalid flaw
                      | Inr bytes \<Rightarrow> Valid bytes)
           else payload outputs)
      | _ \<Rightarrow> payload outputs)"

subsection \<open>Varints\<close>

text \<open>Section 4.C: a varint has at most 19 bytes, the 19th may carry the two highest
  bits of a 128-bit value only, and a payload that ends inside a varint is flawed.
  \<open>integers_from i acc\<close> reads a payload of which the next byte is byte \<open>i\<close> of a
  varint whose lower bytes add up to \<open>acc\<close>; \<open>None\<close> is the flaw \<open>varint\<close>.\<close>

fun integers_from :: "nat \<Rightarrow> nat \<Rightarrow> byte list \<Rightarrow> nat list option" where
  "integers_from i acc [] = (if i = 0 then Some [] else None)"
| "integers_from i acc (b # bs) =
     (let v = unat b mod 128 in
      if i = 18 \<and> 4 \<le> v then None
      else if unat b < 128
        then map_option ((#) (acc + v * 2 ^ (7 * i))) (integers_from 0 0 bs)
      else if i = 18 then None
      else integers_from (Suc i) (acc + v * 2 ^ (7 * i)) bs)"

definition integers :: "byte list \<Rightarrow> nat list option" where
  "integers bs = integers_from 0 0 bs"

subsection \<open>The message\<close>

text \<open>Section 4.H: the id after \<open>prev\<close>; section 4.F: an id is flawed when a component
  leaves its 64 or 32 bits, or when the block is zero and the transaction is not.\<close>

definition next_id :: "RuneId \<Rightarrow> nat \<Rightarrow> nat \<Rightarrow> RuneId" where
  "next_id prev block_delta tx_delta =
     \<lparr>id_block = id_block prev + block_delta,
      id_tx = (if block_delta = 0 then id_tx prev + tx_delta else tx_delta)\<rparr>"

definition id_flawed :: "RuneId \<Rightarrow> bool" where
  "id_flawed i =
     (id_block i > u64_MAX \<or> id_tx i > u32_MAX \<or> (id_block i = 0 \<and> id_tx i \<noteq> 0))"

text \<open>Sections 4.E and 4.F: the body is a sequence of edicts of four integers each; an
  output above the number of outputs of the transaction is the flaw \<open>edict_output\<close>;
  integers left over are the flaw \<open>trailing_integers\<close>. Flaws are accumulated
  (section 7), a flawed edict is left out.\<close>

fun parse_edicts :: "nat \<Rightarrow> RuneId \<Rightarrow> nat list \<Rightarrow> Edict list \<times> FlawEnum list" where
  "parse_edicts n prev (block_delta # tx_delta # amount # out # rest) =
     (let i = next_id prev block_delta tx_delta;
          fl = (if id_flawed i then [EDICT_RUNE_ID] else [])
               @ (if out > n then [EDICT_OUTPUT] else []);
          (es, fs) = parse_edicts n i rest
      in ((if fl = [] then [\<lparr>ed_id = i, ed_amount = amount, ed_output = out\<rparr>] else []) @ es,
          fl @ fs))"
| "parse_edicts n prev [] = ([], [])"
| "parse_edicts n prev rest = ([], [TRAILING_INTEGERS])"

record Message =
  msg_fields :: "(nat \<times> nat) list"
  msg_edicts :: "Edict list"
  msg_flaws :: "FlawEnum list"

text \<open>Section 4.E: pairs of a tag and a value, in their order, up to the body; a tag
  without a value is the flaw \<open>truncated_field\<close>.\<close>

fun parse_message :: "nat \<Rightarrow> nat list \<Rightarrow> Message" where
  "parse_message n [] = \<lparr>msg_fields = [], msg_edicts = [], msg_flaws = []\<rparr>"
| "parse_message n (tag # rest) =
     (if tag = Tag_Body then
        (let (es, fs) = parse_edicts n \<lparr>id_block = 0, id_tx = 0\<rparr> rest
         in \<lparr>msg_fields = [], msg_edicts = es, msg_flaws = fs\<rparr>)
      else
        (case rest of
           [] \<Rightarrow> \<lparr>msg_fields = [], msg_edicts = [], msg_flaws = [TRUNCATED_FIELD]\<rparr>
         | v # rest' \<Rightarrow>
             (let m = parse_message n rest'
              in m\<lparr>msg_fields := (tag, v) # msg_fields m\<rparr>)))"

subsection \<open>The builder\<close>

text \<open>A field is taken out of the message when the first value of its tag fits the
  type of the field; otherwise it stays, as a second value of the same tag does.\<close>

fun take_field ::
  "nat \<Rightarrow> (nat \<Rightarrow> bool) \<Rightarrow> (nat \<times> nat) list \<Rightarrow> nat option \<times> (nat \<times> nat) list" where
  "take_field tag ok [] = (None, [])"
| "take_field tag ok ((t, v) # fs) =
     (if t = tag then (if ok v then (Some v, fs) else (None, (t, v) # fs))
      else (let (r, fs') = take_field tag ok fs in (r, (t, v) # fs')))"

definition take_range ::
  "nat \<Rightarrow> nat \<Rightarrow> (nat \<times> nat) list \<Rightarrow> (nat option \<times> nat option) \<times> (nat \<times> nat) list" where
  "take_range tag_start tag_end fs =
     (let (s, fs1) = take_field tag_start (\<lambda>v. v \<le> u64_MAX) fs;
          (e, fs2) = take_field tag_end (\<lambda>v. v \<le> u64_MAX) fs1
      in ((s, e), fs2))"

definition take_terms :: "(nat \<times> nat) list \<Rightarrow> Terms \<times> (nat \<times> nat) list" where
  "take_terms fs =
     (let (cap, fs1) = take_field Tag_Cap (\<lambda>v. v \<le> u128_MAX) fs;
          (amount, fs2) = take_field Tag_Amount (\<lambda>v. v \<le> u128_MAX) fs1;
          (height, fs3) = take_range Tag_HeightStart Tag_HeightEnd fs2;
          (offset, fs4) = take_range Tag_OffsetStart Tag_OffsetEnd fs3
      in (\<lparr>tm_amount = amount, tm_cap = cap, tm_height = height, tm_offset = offset\<rparr>, fs4))"

definition take_etching ::
  "bool \<Rightarrow> bool \<Rightarrow> (nat \<times> nat) list \<Rightarrow> Etching \<times> (nat \<times> nat) list" where
  "take_etching terms_set turbo_set fs =
     (let (divisibility, fs1) = take_field Tag_Divisibility (\<lambda>v. v \<le> MAX_DIVISIBILITY) fs;
          (spacers, fs2) = take_field Tag_Spacers (\<lambda>v. v \<le> u32_MAX) fs1;
          (rune, fs3) = take_field Tag_Rune (\<lambda>v. v \<le> u128_MAX) fs2;
          (symbol, fs4) = take_field Tag_Symbol (\<lambda>v. v \<le> 0x10FFFF) fs3;
          (premine, fs5) = take_field Tag_Premine (\<lambda>v. v \<le> u128_MAX) fs4;
          (terms, fs6) = (if terms_set
                          then (let (t, fs') = take_terms fs5 in (Some t, fs'))
                          else (None, fs5))
      in (\<lparr>et_divisibility = divisibility, et_rune = rune, et_spacers = spacers,
           et_symbol = map_option fromCodePoint symbol, et_terms = terms,
           et_premine = premine, et_turbo = turbo_set\<rparr>, fs6))"

text \<open>Section 4.F, step 3: the mint is the pair of the first two values of its tag.\<close>

definition take_mint :: "(nat \<times> nat) list \<Rightarrow> RuneId option \<times> (nat \<times> nat) list" where
  "take_mint fs =
     (let (b, fs1) = take_field Tag_Mint (\<lambda>v. v \<le> u64_MAX) fs;
          (t, fs2) = take_field Tag_Mint (\<lambda>v. v \<le> u32_MAX) fs1
      in (case (b, t) of
            (Some b', Some t') \<Rightarrow> (Some \<lparr>id_block = b', id_tx = t'\<rparr>, fs2)
          | _ \<Rightarrow> (None, fs)))"

text \<open>Section 4.F, step 2: the supply \<open>premine + amount * cap\<close> has to fit 128 bits; an
  absent value counts as zero.\<close>

definition supply_overflow :: "Etching \<Rightarrow> bool" where
  "supply_overflow et =
     (let p = (case et_premine et of None \<Rightarrow> 0 | Some v \<Rightarrow> v);
          a = (case et_terms et of None \<Rightarrow> 0
               | Some t \<Rightarrow> (case tm_amount t of None \<Rightarrow> 0 | Some v \<Rightarrow> v));
          c = (case et_terms et of None \<Rightarrow> 0
               | Some t \<Rightarrow> (case tm_cap t of None \<Rightarrow> 0 | Some v \<Rightarrow> v))
      in a * c > u128_MAX \<or> p + a * c > u128_MAX)"

text \<open>Section 4.E: the flags are a bit field whose bits are the etching, the terms, the
  turbo and the cenotaph flag; any other bit that is set is the flaw
  \<open>unrecognized_flag\<close>. \<open>flags_left\<close> is what remains of the flags without the four
  bits that section 4.E names.\<close>

definition flags_left :: "nat \<Rightarrow> nat" where
  "flags_left flags =
     flags
     - (if bit flags Flag_Etching then 2 ^ Flag_Etching else 0)
     - (if bit flags Flag_Terms then 2 ^ Flag_Terms else 0)
     - (if bit flags Flag_Turbo then 2 ^ Flag_Turbo else 0)
     - (if bit flags Flag_Cenotaph then 2 ^ Flag_Cenotaph else 0)"

text \<open>Section 4.F: the fields are taken out of the message; a pointer that is no index
  of an output is the flaw \<open>edict_output\<close>; a tag with an even number that is left
  over is the flaw \<open>unrecognized_even_tag\<close>. Step 5: with any flaw, or with the explicit
  cenotaph flag, the artifact is a cenotaph that keeps the rune of the etching and the
  mint; the flag adds no flaw of its own.\<close>

definition take_fields ::
  "(nat \<times> nat) list
     \<Rightarrow> nat \<times> Etching option \<times> RuneId option \<times> nat option \<times> (nat \<times> nat) list" where
  "take_fields fs =
     (let (flags_opt, fs1) = take_field Tag_Flags (\<lambda>v. v \<le> u128_MAX) fs;
          flags = (case flags_opt of None \<Rightarrow> 0 | Some f \<Rightarrow> f);
          (etching, fs2) =
             (if bit flags Flag_Etching
              then (let (et, fs') = take_etching (bit flags Flag_Terms) (bit flags Flag_Turbo) fs1
                    in (Some et, fs'))
              else (None, fs1));
          (mint, fs3) = take_mint fs2;
          (pointer, fs4) = take_field Tag_Pointer (\<lambda>v. v \<le> u32_MAX) fs3
      in (flags, etching, mint, pointer, fs4))"

definition builder_flaws ::
  "nat \<Rightarrow> nat \<Rightarrow> Etching option \<Rightarrow> nat option \<Rightarrow> (nat \<times> nat) list \<Rightarrow> FlawEnum list" where
  "builder_flaws n flags etching_opt pointer_opt leftover =
     (case etching_opt of
        None \<Rightarrow> []
      | Some et \<Rightarrow> if supply_overflow et then [SUPPLY_OVERFLOW] else [])
     @ (case pointer_opt of
          None \<Rightarrow> []
        | Some p \<Rightarrow> if p \<ge> n then [EDICT_OUTPUT] else [])
     @ (if flags_left flags \<noteq> 0 then [UNRECOGNIZED_FLAG] else [])
     @ (if list_ex (\<lambda>(t, v). even t) leftover then [UNRECOGNIZED_EVEN_TAG] else [])"

definition build_artifact :: "nat \<Rightarrow> Message \<Rightarrow> Artifact" where
  "build_artifact n m =
     (let (flags, etching, mint, pointer, left) = take_fields (msg_fields m);
          flaws = msg_flaws m @ builder_flaws n flags etching pointer left
      in if flaws \<noteq> [] \<or> bit flags Flag_Cenotaph
         then ArtCenotaph \<lparr>cn_flaws = remdups flaws,
                           cn_etching = Option.bind etching et_rune,
                           cn_mint = mint\<rparr>
         else ArtRunestone \<lparr>rs_mint = mint, rs_pointer = pointer,
                            rs_edicts = msg_edicts m, rs_etching = etching\<rparr>)"

definition decipher :: "RunestoneTx \<Rightarrow> Artifact option" where
  "decipher transaction =
     (case payload (vout transaction) of
        None \<Rightarrow> None
      | Some (Invalid flaw) \<Rightarrow>
          Some (ArtCenotaph \<lparr>cn_flaws = [flaw], cn_etching = None, cn_mint = None\<rparr>)
      | Some (Valid bytes) \<Rightarrow>
          (case integers bytes of
             None \<Rightarrow>
               Some (ArtCenotaph \<lparr>cn_flaws = [VARINT], cn_etching = None, cn_mint = None\<rparr>)
           | Some ints \<Rightarrow>
               Some (build_artifact (length (vout transaction))
                       (parse_message (length (vout transaction)) ints))))"

section \<open>tryDecodeRunestone and isRunestone (index.ts, lines 80-103 and 235-337)\<close>

fun getFlawString :: "FlawEnum \<Rightarrow> string" where
  "getFlawString EDICT_OUTPUT = ''edict_output''"
| "getFlawString EDICT_RUNE_ID = ''edict_rune_id''"
| "getFlawString INVALID_SCRIPT = ''invalid_script''"
| "getFlawString OPCODE = ''opcode''"
| "getFlawString SUPPLY_OVERFLOW = ''supply_overflow''"
| "getFlawString TRAILING_INTEGERS = ''trailing_integers''"
| "getFlawString TRUNCATED_FIELD = ''truncated_field''"
| "getFlawString UNRECOGNIZED_EVEN_TAG = ''unrecognized_even_tag''"
| "getFlawString UNRECOGNIZED_FLAG = ''unrecognized_flag''"
| "getFlawString VARINT = ''varint''"

datatype Decoded = DecodedRunestone RunestoneSpec | DecodedCenotaph Cenotaph

definition decode_id :: "RuneId \<Rightarrow> RuneIdSpec" where
  "decode_id i = \<lparr>block = int (id_block i), tx = int (id_tx i)\<rparr>"

text \<open>Lines 274-297: \<open>height\<close> and \<open>offset\<close> are written when one of their two bounds
  is there.\<close>

definition decode_range :: "nat option \<times> nat option \<Rightarrow> RangeSpec option" where
  "decode_range h =
     (if fst h \<noteq> None \<or> snd h \<noteq> None
      then Some \<lparr>range_start = map_option int (fst h), range_end = map_option int (snd h)\<rparr>
      else None)"

definition decode_terms :: "Terms \<Rightarrow> TermsSpec" where
  "decode_terms t =
     \<lparr>terms_amount = map_option int (tm_amount t),
      terms_cap = map_option int (tm_cap t),
      terms_height = decode_range (tm_height t),
      terms_offset = decode_range (tm_offset t)\<rparr>"

text \<open>Lines 255-302.\<close>

definition decode_etching :: "Etching \<Rightarrow> RuneEtchingSpec" where
  "decode_etching et =
     \<lparr>runeName =
        map_option
          (\<lambda>r. SpacedRune_toString
                 \<lparr>sr_rune = r,
                  sr_spacers = (case et_spacers et of None \<Rightarrow> 0 | Some sp \<Rightarrow> sp)\<rparr>)
          (et_rune et),
      divisibility = map_option int (et_divisibility et),
      premine = map_option int (et_premine et),
      symbol = et_symbol et,
      terms = map_option decode_terms (et_terms et),
      turbo = Some (et_turbo et)\<rparr>"

definition decode_edict :: "Edict \<Rightarrow> EdictSpec" where
  "decode_edict e =
     \<lparr>edict_id = decode_id (ed_id e),
      edict_amount = int (ed_amount e),
      edict_output = int (ed_output e)\<rparr>"

text \<open>Lines 252-326: the object returned for a runestone.\<close>

definition decode_runestone :: "Runestone \<Rightarrow> RunestoneSpec" where
  "decode_runestone runestone =
     \<lparr>mint = map_option decode_id (rs_mint runestone),
      pointer = map_option int (rs_pointer runestone),
      etching = map_option decode_etching (rs_etching runestone),
      edicts = (if rs_edicts runestone \<noteq> []
                then Some (map decode_edict (rs_edicts runestone))
                else None)\<rparr>"

text \<open>Lines 328-335: the object returned for a cenotaph.\<close>

definition decode_cenotaph :: "LibCenotaph \<Rightarrow> Cenotaph" where
  "decode_cenotaph cenotaph =
     \<lparr>flaws = map getFlawString (cn_flaws cenotaph),
      cenotaph_etching = map_option rune_to_name (cn_etching cenotaph),
      cenotaph_mint = map_option decode_id (cn_mint cenotaph)\<rparr>"

definition tryDecodeRunestone :: "RunestoneTx \<Rightarrow> Decoded option" where
  "tryDecodeRunestone transaction =
     (case decipher transaction of
        None \<Rightarrow> None
      | Some (ArtRunestone runestone) \<Rightarrow> Some (DecodedRunestone (decode_runestone runestone))
      | Some (ArtCenotaph cenotaph) \<Rightarrow> Some (DecodedCenotaph (decode_cenotaph cenotaph)))"

text \<open>The names of the properties of an object: an optional property that is absent
  is no property of the object, and \<open>flaws\<close> is a property of every \<open>Cenotaph\<close>.\<close>

definition present :: "string \<Rightarrow> 'a option \<Rightarrow> string list" where
  "present name v = (case v of None \<Rightarrow> [] | Some x \<Rightarrow> [name])"

fun properties :: "Decoded \<Rightarrow> string list" where
  "properties (DecodedRunestone r) =
     present ''etching'' (etching r) @ present ''mint'' (mint r)
     @ present ''pointer'' (pointer r) @ present ''edicts'' (edicts r)"
| "properties (DecodedCenotaph c) =
     ''flaws'' # present ''etching'' (cenotaph_etching c)
     @ present ''mint'' (cenotaph_mint c)"

text \<open>Lines 235-237.\<close>

definition isRunestone :: "Decoded \<Rightarrow> bool" where
  "isRunestone artifact = (''flaws'' \<notin> set (properties artifact))"

section \<open>The domains of the numeric fields\<close>

text \<open>The bounded unsigned domain of every numeric field of a \<open>RunestoneSpec\<close>: 64 bits
  for a block and for the bounds of a height or an offset, 32 bits for a transaction
  index, a pointer and an output, 8 bits for the divisibility, 128 bits for an amount,
  a premine and a cap. An absent field is in its domain.\<close>


definition is_u8 :: "int \<Rightarrow> bool" where "is_u8 n = (0 \<le> n \<and> n \<le> int u8_MAX)"
definition is_u32 :: "int \<Rightarrow> bool" where "is_u32 n = (0 \<le> n \<and> n \<le> int u32_MAX)"
definition is_u64 :: "int \<Rightarrow> bool" where "is_u64 n = (0 \<le> n \<and> n \<le> int u64_MAX)"
definition is_u128 :: "int \<Rightarrow> bool" where "is_u128 n = (0 \<le> n \<and> n \<le> int u128_MAX)"

definition opt_all :: "('a \<Rightarrow> bool) \<Rightarrow> 'a option \<Rightarrow> bool" where
  "opt_all P x = (case x of None \<Rightarrow> True | Some v \<Rightarrow> P v)"

definition id_in_domain :: "RuneIdSpec \<Rightarrow> bool" where
  "id_in_domain i = (is_u64 (block i) \<and> is_u32 (tx i))"

definition edict_in_domain :: "EdictSpec \<Rightarrow> bool" where
  "edict_in_domain e =
     (id_in_domain (edict_id e) \<and> is_u128 (edict_amount e) \<and> is_u32 (edict_output e))"

definition range_in_domain :: "RangeSpec \<Rightarrow> bool" where
  "range_in_domain h = (opt_all is_u64 (range_start h) \<and> opt_all is_u64 (range_end h))"

definition terms_in_domain :: "TermsSpec \<Rightarrow> bool" where
  "terms_in_domain t =
     (opt_all is_u128 (terms_amount t) \<and> opt_all is_u128 (terms_cap t)
      \<and> opt_all range_in_domain (terms_height t) \<and> opt_all range_in_domain (terms_offset t))"

definition etching_in_domain :: "RuneEtchingSpec \<Rightarrow> bool" where
  "etching_in_domain e =
     (opt_all is_u8 (divisibility e) \<and> opt_all is_u128 (premine e)
      \<and> opt_all terms_in_domain (terms e))"

definition in_domain :: "RunestoneSpec \<Rightarrow> bool" where
  "in_domain r =
     (opt_all id_in_domain (mint r) \<and> opt_all is_u32 (pointer r)
      \<and> opt_all etching_in_domain (etching r)
      \<and> opt_all (list_all edict_in_domain) (edicts r))"

section \<open>Two specs to build examples on\<close>

text \<open>The object \<open>{}\<close>, as a \<open>RunestoneSpec\<close> and as a \<open>RuneEtchingSpec\<close>.\<close>

definition no_fields :: RunestoneSpec where
  "no_fields = \<lparr>mint = None, pointer = None, etching = None, edicts = None\<rparr>"

definition no_etching_fields :: RuneEtchingSpec where
  "no_etching_fields =
     \<lparr>runeName = None, divisibility = None, premine = None, symbol = None, terms = None,
      turbo = None\<rparr>"

definition conversion_errors :: "error set" where
  "conversion_errors = {U8_overflow, U32_overflow, U64_overflow, U128_overflow}"

section \<open>Reading a commitment\<close>

text \<open>The number that a list of bytes stands for in little-endian order, the first byte
  being the least significant one.\<close>

fun le_value :: "byte list \<Rightarrow> nat" where
  "le_value [] = 0"
| "le_value (b # bs) = unat b + 256 * le_value bs"

section \<open>Runestones that decode to themselves\<close>

text \<open>A runestone of the library whose fields fit the types of section 3 of the
  specification and which the builder of section 4.F takes without a flaw in a
  transaction of \<open>n\<close> outputs: the ids of its edicts ascend, no id has the block zero
  with another transaction than zero, no output is beyond \<open>n\<close>, the pointer is below
  \<open>n\<close>, the symbol is one code point and the supply fits 128 bits.\<close>

definition terms_valid :: "Terms \<Rightarrow> bool" where
  "terms_valid t =
     (opt_all (\<lambda>v. v \<le> u128_MAX) (tm_amount t) \<and> opt_all (\<lambda>v. v \<le> u128_MAX) (tm_cap t)
      \<and> opt_all (\<lambda>v. v \<le> u64_MAX) (fst (tm_height t))
      \<and> opt_all (\<lambda>v. v \<le> u64_MAX) (snd (tm_height t))
      \<and> opt_all (\<lambda>v. v \<le> u64_MAX) (fst (tm_offset t))
      \<and> opt_all (\<lambda>v. v \<le> u64_MAX) (snd (tm_offset t)))"

definition etching_valid :: "Etching \<Rightarrow> bool" where
  "etching_valid et =
     (opt_all (\<lambda>v. v \<le> MAX_DIVISIBILITY) (et_divisibility et)
      \<and> opt_all (\<lambda>v. v \<le> u128_MAX) (et_rune et)
      \<and> opt_all (\<lambda>v. v \<le> u32_MAX) (et_spacers et)
      \<and> opt_all (\<lambda>s. length (code_points s) = 1) (et_symbol et)
      \<and> opt_all terms_valid (et_terms et)
      \<and> opt_all (\<lambda>v. v \<le> u128_MAX) (et_premine et)
      \<and> \<not> supply_overflow et)"

definition edict_valid :: "nat \<Rightarrow> Edict \<Rightarrow> bool" where
  "edict_valid n e =
     (\<not> id_flawed (ed_id e) \<and> ed_amount e \<le> u128_MAX \<and> ed_output e \<le> n
      \<and> ed_output e \<le> u32_MAX)"

definition runestone_valid :: "nat \<Rightarrow> Runestone \<Rightarrow> bool" where
  "runestone_valid n rs =
     (opt_all (\<lambda>i. id_block i \<le> u64_MAX \<and> id_tx i \<le> u32_MAX) (rs_mint rs)
      \<and> opt_all (\<lambda>p. p < n \<and> p \<le> u32_MAX) (rs_pointer rs)
      \<and> list_all (edict_valid n) (rs_edicts rs)
      \<and> sorted (map (\<lambda>e. rune_id_key (ed_id e)) (rs_edicts rs))
      \<and> opt_all etching_valid (rs_etching rs))"

definition field_bounded :: "nat \<times> nat \<Rightarrow> bool" where
  "field_bounded f = (fst f \<noteq> Tag_Body \<and> fst f \<le> u128_MAX \<and> snd f \<le> u128_MAX)"

section \<open>Specs that decode to themselves\<close>

text \<open>The runestone of the library that \<open>encodeRunestone\<close> builds from a spec whose
  numbers are in their domains: every number as it is.\<close>

definition to_id :: "RuneIdSpec \<Rightarrow> RuneId" where
  "to_id i = \<lparr>id_block = nat (block i), id_tx = nat (tx i)\<rparr>"

definition to_edict :: "EdictSpec \<Rightarrow> Edict" where
  "to_edict e =
     \<lparr>ed_id = to_id (edict_id e), ed_amount = nat (edict_amount e),
      ed_output = nat (edict_output e)\<rparr>"

definition to_range :: "RangeSpec option \<Rightarrow> nat option \<times> nat option" where
  "to_range h =
     (case h of
        None \<Rightarrow> (None, None)
      | Some r \<Rightarrow> (map_option nat (range_start r), map_option nat (range_end r)))"

definition to_terms :: "TermsSpec \<Rightarrow> Terms" where
  "to_terms t =
     \<lparr>tm_amount = map_option nat (terms_amount t), tm_cap = map_option nat (terms_cap t),
      tm_height = to_range (terms_height t), tm_offset = to_range (terms_offset t)\<rparr>"

text \<open>The supply of an etching, \<open>premine + amount * cap\<close>, an absent number counting as
  zero.\<close>

definition or_zero :: "int option \<Rightarrow> int" where
  "or_zero x = (case x of None \<Rightarrow> 0 | Some v \<Rightarrow> v)"

definition spec_supply :: "RuneEtchingSpec \<Rightarrow> int" where
  "spec_supply e =
     or_zero (premine e)
     + or_zero (Option.bind (terms e) terms_amount) * or_zero (Option.bind (terms e) terms_cap)"

text \<open>A spec in canonical form, for a transaction of \<open>n\<close> outputs: what
  \<open>tryDecodeRunestone\<close> writes is what \<open>encodeRunestone\<close> was given. A \<open>height\<close> or an
  \<open>offset\<close> has one of its two bounds (lines 274-297 write it only then); a rune name is
  not empty and is one that \<open>SpacedRune.fromString\<close> takes; a symbol is one code point;
  the divisibility is at most 38; the supply fits 128 bits; \<open>turbo\<close> is given (line 301
  always writes it). The list of edicts is not empty (lines 314-325 write it only then),
  it is in ascending order of the ids, no id has the block zero with another
  transaction than zero, and no output is beyond the number of outputs. The pointer is
  the index of an output.\<close>

definition range_canonical :: "RangeSpec option \<Rightarrow> bool" where
  "range_canonical h =
     (case h of None \<Rightarrow> True | Some r \<Rightarrow> range_start r \<noteq> None \<or> range_end r \<noteq> None)"

definition etching_canonical :: "RuneEtchingSpec \<Rightarrow> bool" where
  "etching_canonical e =
     (opt_all (\<lambda>s. s \<noteq> [] \<and> \<not> isl (SpacedRune_fromString s)) (runeName e)
      \<and> opt_all (\<lambda>s. length (code_points s) = 1) (symbol e)
      \<and> opt_all (\<lambda>d. d \<le> int MAX_DIVISIBILITY) (divisibility e)
      \<and> opt_all (\<lambda>t. range_canonical (terms_height t) \<and> range_canonical (terms_offset t))
            (terms e)
      \<and> spec_supply e \<le> int u128_MAX
      \<and> turbo e \<noteq> None)"

definition edict_key :: "EdictSpec \<Rightarrow> int \<times> int" where
  "edict_key e = (block (edict_id e), tx (edict_id e))"

definition edict_canonical :: "nat \<Rightarrow> EdictSpec \<Rightarrow> bool" where
  "edict_canonical n e =
     (\<not> (block (edict_id e) = 0 \<and> tx (edict_id e) \<noteq> 0) \<and> edict_output e \<le> int n)"

definition canonical :: "nat \<Rightarrow> RunestoneSpec \<Rightarrow> bool" where
  "canonical n r =
     (in_domain r
      \<and> opt_all (\<lambda>p. p < int n) (pointer r)
      \<and> opt_all (\<lambda>es. es \<noteq> [] \<and> sorted (map edict_key es) \<and> list_all (edict_canonical n) es)
            (edicts r)
      \<and> opt_all etching_canonical (etching r))"

section \<open>Properties\<close>

subsection \<open>Errors and the strict conversions\<close>

declare encodeVarInt.simps [simp del]
declare rune_to_name.simps [simp del]
declare chunks.simps [simp del]

lemma bind_error_simps [simp]:
  "bind_error (Inl e) f = Inl e" "bind_error (Inr x) f = f x"
  by (simp_all add: bind_error_def)

lemma bind_error_Inr: "bind_error m f = Inr y \<longleftrightarrow> (\<exists>x. m = Inr x \<and> f x = Inr y)"
  by (cases m) simp_all

lemma bind_error_Inl:
  "bind_error m f = Inl e \<longleftrightarrow> m = Inl e \<or> (\<exists>x. m = Inr x \<and> f x = Inl e)"
  by (cases m) simp_all

lemma u8Strict_Inr: "u8Strict n = Inr v \<longleftrightarrow> is_u8 n \<and> v = nat n"
  by (auto simp: u8Strict_def is_u8_def)
lemma u32Strict_Inr: "u32Strict n = Inr v \<longleftrightarrow> is_u32 n \<and> v = nat n"
  by (auto simp: u32Strict_def is_u32_def)
lemma u64Strict_Inr: "u64Strict n = Inr v \<longleftrightarrow> is_u64 n \<and> v = nat n"
  by (auto simp: u64Strict_def is_u64_def)
lemma u128Strict_Inr: "u128Strict n = Inr v \<longleftrightarrow> is_u128 n \<and> v = nat n"
  by (auto simp: u128Strict_def is_u128_def)

lemmas strict_Inr = u8Strict_Inr u32Strict_Inr u64Strict_Inr u128Strict_Inr

lemma strict_opt_Inr:
  "strict_opt f x = Inr y \<longleftrightarrow>
     (x = None \<and> y = None) \<or> (\<exists>n v. x = Some n \<and> f n = Inr v \<and> y = Some v)"
  by (cases x) (auto simp: strict_opt_def bind_error_Inr)

lemma encode_mint_Inr:
  "encode_mint m = Inr y \<longleftrightarrow>
     (m = None \<and> y = None)
     \<or> (\<exists>i. m = Some i \<and> id_in_domain i
            \<and> y = Some \<lparr>id_block = nat (block i), id_tx = nat (tx i)\<rparr>)"
  by (cases m) (auto simp: encode_mint_def bind_error_Inr strict_Inr id_in_domain_def)

lemma encode_edict_Inr:
  "encode_edict e = Inr y \<longleftrightarrow>
     edict_in_domain e
     \<and> y = \<lparr>ed_id = \<lparr>id_block = nat (block (edict_id e)), id_tx = nat (tx (edict_id e))\<rparr>,
            ed_amount = nat (edict_amount e), ed_output = nat (edict_output e)\<rparr>"
  by (auto simp: encode_edict_def bind_error_Inr strict_Inr edict_in_domain_def id_in_domain_def)

lemma map_error_Inr:
  "map_error f xs = Inr ys \<longleftrightarrow> list_all2 (\<lambda>x y. f x = Inr y) xs ys"
proof (induction xs arbitrary: ys)
  case Nil
  show ?case by auto
next
  case (Cons x xs)
  show ?case by (cases ys) (auto simp: bind_error_Inr Cons.IH)
qed

lemma encode_range_Inr:
  "encode_range r = Inr y \<Longrightarrow> opt_all range_in_domain r"
  by (cases r) (auto simp: encode_range_def bind_error_Inr strict_opt_Inr strict_Inr
      opt_all_def range_in_domain_def)

lemma encode_terms_Inr:
  "encode_terms ts = Inr y \<Longrightarrow> opt_all terms_in_domain ts"
  by (cases ts) (auto simp: encode_terms_def bind_error_Inr strict_opt_Inr strict_Inr
      opt_all_def terms_in_domain_def dest!: encode_range_Inr split: if_splits)

lemma encode_etching_Inr:
  "encode_etching e = Inr y \<Longrightarrow> etching_in_domain e"
  by (auto simp: encode_etching_def bind_error_Inr strict_opt_Inr strict_Inr Let_def
      opt_all_def etching_in_domain_def dest!: encode_terms_Inr split: if_splits)

lemma map_encode_edict_Inr:
  "map_error encode_edict es = Inr ys \<Longrightarrow> list_all edict_in_domain es"
  by (auto simp: map_error_Inr encode_edict_Inr list_all2_conv_all_nth list_all_length)

lemma build_runestone_in_domain:
  "build_runestone r = Inr y \<Longrightarrow> in_domain r"
  unfolding build_runestone_def in_domain_def
  apply (clarsimp simp: bind_error_Inr encode_mint_Inr strict_opt_Inr strict_Inr)
  apply (auto simp: opt_all_def bind_error_Inr dest!: map_encode_edict_Inr encode_etching_Inr split: option.splits)
  done

lemma encodeRunestone_Inr_build:
  "encodeRunestone r = Inr out \<Longrightarrow> \<exists>y. build_runestone r = Inr y"
  by (auto simp: encodeRunestone_def bind_error_Inr)

text \<open>Claim C7: \<open>encodeRunestone\<close> throws whenever a numeric field of the spec lies
  outside its bounded unsigned domain (below zero, or above the bound of its 8, 32, 64
  or 128 bits), and a strict conversion that returns gives back the number it was
  given: no value is wrapped.\<close>

theorem strict_conversions_refuse:
  "(\<not> in_domain r \<longrightarrow> (\<exists>e. encodeRunestone r = Inl e))
   \<and> (u8Strict n = Inr v \<longrightarrow> int v = n)
   \<and> (u32Strict n = Inr v \<longrightarrow> int v = n)
   \<and> (u64Strict n = Inr v \<longrightarrow> int v = n)
   \<and> (u128Strict n = Inr v \<longrightarrow> int v = n)"
proof -
  have "\<exists>e. encodeRunestone r = Inl e" if "\<not> in_domain r"
  proof (cases "encodeRunestone r")
    case (Inl e)
    then show ?thesis by blast
  next
    case (Inr out)
    with that show ?thesis
      using encodeRunestone_Inr_build build_runestone_in_domain by blast
  qed
  then show ?thesis
    by (auto simp: strict_Inr is_u8_def is_u32_def is_u64_def is_u128_def)
qed

theorem strict_conversions_refuse_witness:
  "\<not> in_domain \<lparr>mint = None, pointer = Some (2 ^ 32), etching = None, edicts = None\<rparr>
   \<and> (\<exists>e. encodeRunestone
              \<lparr>mint = None, pointer = Some (2 ^ 32), etching = None, edicts = None\<rparr> = Inl e)
   \<and> u8Strict 255 = Inr 255 \<and> u32Strict 7 = Inr 7 \<and> u64Strict 7 = Inr 7
   \<and> u128Strict 7 = Inr 7 \<and> int 255 = 255"
  using strict_conversions_refuse
    [of "\<lparr>mint = None, pointer = Some (2 ^ 32), etching = None, edicts = None\<rparr>" 255 255]
  by (simp add: in_domain_def opt_all_def is_u32_def u32_MAX_def u8Strict_def u8_MAX_def
      u32Strict_def u64Strict_def u64_MAX_def u128Strict_def u128_MAX_def)

lemma u8Strict_Inl: "u8Strict n = Inl e \<longleftrightarrow> \<not> is_u8 n \<and> e = U8_overflow"
  by (auto simp: u8Strict_def is_u8_def)
lemma u32Strict_Inl: "u32Strict n = Inl e \<longleftrightarrow> \<not> is_u32 n \<and> e = U32_overflow"
  by (auto simp: u32Strict_def is_u32_def)
lemma u64Strict_Inl: "u64Strict n = Inl e \<longleftrightarrow> \<not> is_u64 n \<and> e = U64_overflow"
  by (auto simp: u64Strict_def is_u64_def)
lemma u128Strict_Inl: "u128Strict n = Inl e \<longleftrightarrow> \<not> is_u128 n \<and> e = U128_overflow"
  by (auto simp: u128Strict_def is_u128_def)

lemmas strict_Inl = u8Strict_Inl u32Strict_Inl u64Strict_Inl u128Strict_Inl

lemma strict_opt_Inl:
  "strict_opt f x = Inl e \<longleftrightarrow> (\<exists>n. x = Some n \<and> f n = Inl e)"
  by (cases x) (auto simp: strict_opt_def bind_error_Inl)


lemma encode_mint_Inl: "encode_mint m = Inl e \<Longrightarrow> e \<in> conversion_errors"
  by (cases m) (auto simp: encode_mint_def bind_error_Inl strict_Inl conversion_errors_def)

lemma encode_edict_Inl: "encode_edict x = Inl e \<Longrightarrow> e \<in> conversion_errors"
  by (auto simp: encode_edict_def bind_error_Inl strict_Inl conversion_errors_def)

lemma map_encode_edict_Inl: "map_error encode_edict es = Inl e \<Longrightarrow> e \<in> conversion_errors"
  by (induction es) (auto simp: bind_error_Inl dest: encode_edict_Inl)

lemma strict_opt_conversion:
  "strict_opt f x = Inl e \<Longrightarrow> f \<in> {u8Strict, u32Strict, u64Strict, u128Strict}
     \<Longrightarrow> e \<in> conversion_errors"
  by (auto simp: strict_opt_Inl strict_Inl conversion_errors_def)

lemma encode_range_Inl: "encode_range h = Inl e \<Longrightarrow> e \<in> conversion_errors"
  by (cases h) (auto simp: encode_range_def bind_error_Inl strict_opt_Inl strict_Inl
      conversion_errors_def)

lemma encode_terms_Inl:
  "encode_terms ts = Inl e \<Longrightarrow> e \<in> conversion_errors \<or> e = Terms_overflow"
  by (cases ts) (auto simp: encode_terms_def bind_error_Inl strict_opt_Inl strict_Inl
      conversion_errors_def dest!: encode_range_Inl split: if_splits)

lemma encode_spaced_rune_Inl: "encode_spaced_rune n = Inl e \<Longrightarrow> e = Rune_name_error"
  by (cases n) (auto simp: encode_spaced_rune_def bind_error_Inl SpacedRune_fromString_def
      split: if_splits option.splits prod.splits)

lemma encode_spacers_Inl: "encode_spacers sr = Inl e \<Longrightarrow> e \<in> conversion_errors"
  by (cases sr) (auto simp: encode_spacers_def bind_error_Inl strict_Inl conversion_errors_def
      split: if_splits)

text \<open>The errors of the etching, in the order of the source.\<close>

lemma encode_etching_Inl:
  assumes "encode_etching e = Inl err"
  shows "err = Rune_name_error
     \<or> (err = Symbol_must_be_one_code_point \<and> \<not> symbol_ok (symbol e))
     \<or> err \<in> conversion_errors
     \<or> (err = Divisibility_greater_than_max
         \<and> (\<exists>d. divisibility e = Some d \<and> int MAX_DIVISIBILITY < d \<and> is_u8 d))
     \<or> err = Terms_overflow"
  using assms unfolding encode_etching_def Let_def
  by (auto simp: bind_error_Inl strict_opt_Inl strict_opt_Inr strict_Inl strict_Inr
      conversion_errors_def
      dest!: encode_spaced_rune_Inl encode_spacers_Inl encode_terms_Inl split: if_splits)

lemma build_runestone_Inl:
  assumes "build_runestone r = Inl err"
  shows "err \<in> conversion_errors \<or> (\<exists>e. etching r = Some e \<and> encode_etching e = Inl err)"
  using assms unfolding build_runestone_def
  by (auto simp: bind_error_Inl strict_opt_Inl strict_Inl conversion_errors_def
      dest!: encode_mint_Inl map_encode_edict_Inl split: option.splits)

lemma encodeRunestone_Inl:
  "encodeRunestone r = Inl err \<Longrightarrow> err = Encipher_error \<or> build_runestone r = Inl err"
  by (auto simp: encodeRunestone_def bind_error_Inl split: option.splits)

lemma encode_etching_divisibility:
  "encode_etching e = Inr y \<Longrightarrow> divisibility e = Some d \<Longrightarrow> d \<le> int MAX_DIVISIBILITY"
  unfolding encode_etching_def Let_def
  by (auto simp: bind_error_Inr strict_opt_Inr strict_Inr split: if_splits)

lemma build_runestone_etching:
  "build_runestone r = Inr y \<Longrightarrow> etching r = Some e \<Longrightarrow> \<exists>z. encode_etching e = Inr z"
  unfolding build_runestone_def
  by (auto simp: bind_error_Inr)

subsection \<open>Evaluation on concrete inputs\<close>

lemma encodeVarInt_small: "v < 128 \<Longrightarrow> encodeVarInt v = [of_nat v]"
  by (subst encodeVarInt.simps) simp

lemma encodeVarInt_big:
  "128 \<le> v \<Longrightarrow> encodeVarInt v = of_nat (v mod 128 + 128) # encodeVarInt (v div 128)"
  by (subst encodeVarInt.simps) simp

lemma chunks_Nil [simp]: "chunks [] = []"
  by (simp add: chunks.simps)

lemma chunks_short: "p \<noteq> [] \<Longrightarrow> length p \<le> 520 \<Longrightarrow> chunks p = [p]"
  by (subst chunks.simps) (simp add: MAX_SCRIPT_ELEMENT_SIZE_def)

lemma script_of_payload_Nil: "script_of_payload [] = [OP_RETURN, OP_13]"
  by (simp add: script_of_payload_def)

lemma script_of_payload_short:
  "p \<noteq> [] \<Longrightarrow> length p \<le> 75 \<Longrightarrow> script_of_payload p = OP_RETURN # OP_13 # of_nat (length p) # p"
  by (simp add: script_of_payload_def chunks_short push_bytes_def)

lemmas encode_eval =
  encodeRunestone_def build_runestone_def encode_mint_def encode_edict_def encode_etching_def
  encode_spaced_rune_def encode_spacers_def encode_terms_def encode_range_def strict_opt_def
  symbol_ok_def u8Strict_def u32Strict_def u64Strict_def u128Strict_def
  u8_MAX_def u32_MAX_def u64_MAX_def u128_MAX_def MAX_DIVISIBILITY_def
  encipher_def message_integers_def body_integers_def runestone_fields_def
  etching_fields_def terms_fields_def mint_fields_def field_def etching_flags_def
  script_of_payload_Nil script_of_payload_short
  encodeVarInt_small encodeVarInt_big is_high_surrogate_def is_low_surrogate_def
  surrogate_pair_def

lemma pushes_from_pos:
  "0 < k \<Longrightarrow> pushes_from k (b # bs) = map_sum id ((#) b) (pushes_from (k - 1) bs)"
  "0 < k \<Longrightarrow> pushes_from k [] = Inl INVALID_SCRIPT"
  by (cases k; simp)+

lemmas decode_eval =
  tryDecodeRunestone_def decode_runestone_def decode_cenotaph_def decipher_def integers_def
  build_artifact_def take_fields_def
  builder_flaws_def take_etching_def
  take_terms_def take_range_def take_mint_def supply_overflow_def flags_left_def
  next_id_def id_flawed_def decode_id_def decode_range_def decode_terms_def
  decode_etching_def decode_edict_def pushes_from_pos bit_iff_odd
  u8_MAX_def u32_MAX_def u64_MAX_def u128_MAX_def MAX_DIVISIBILITY_def

subsection \<open>The divisibility\<close>

text \<open>Claim C5: \<open>encodeRunestone\<close> throws when the divisibility of the etching exceeds
  the protocol maximum \<open>MAX_DIVISIBILITY = 38\<close>, and it throws the error of the
  divisibility only then: a divisibility of at most 38 is never rejected on that
  account.\<close>

theorem divisibility_above_max_refused:
  "(etching r = Some e \<and> divisibility e = Some d \<and> int MAX_DIVISIBILITY < d
      \<longrightarrow> (\<exists>err. encodeRunestone r = Inl err))
   \<and> (encodeRunestone r = Inl Divisibility_greater_than_max
      \<longrightarrow> (\<exists>e d. etching r = Some e \<and> divisibility e = Some d \<and> int MAX_DIVISIBILITY < d))
   \<and> MAX_DIVISIBILITY = 38"
proof (intro conjI impI)
  assume a: "etching r = Some e \<and> divisibility e = Some d \<and> int MAX_DIVISIBILITY < d"
  show "\<exists>err. encodeRunestone r = Inl err"
  proof (cases "encodeRunestone r")
    case (Inl err)
    then show ?thesis by blast
  next
    case (Inr out)
    then obtain y where "build_runestone r = Inr y"
      using encodeRunestone_Inr_build by blast
    with a obtain z where "encode_etching e = Inr z"
      using build_runestone_etching by blast
    with a have "d \<le> int MAX_DIVISIBILITY"
      using encode_etching_divisibility by blast
    with a show ?thesis by simp
  qed
next
  assume "encodeRunestone r = Inl Divisibility_greater_than_max"
  then have "build_runestone r = Inl Divisibility_greater_than_max"
    using encodeRunestone_Inl by blast
  then obtain e where e: "etching r = Some e"
      "encode_etching e = Inl Divisibility_greater_than_max"
    using build_runestone_Inl by (fastforce simp: conversion_errors_def)
  from encode_etching_Inl [OF e(2)]
  have "\<exists>d. divisibility e = Some d \<and> int MAX_DIVISIBILITY < d"
    by (auto simp: conversion_errors_def)
  with e show "\<exists>e d. etching r = Some e \<and> divisibility e = Some d \<and> int MAX_DIVISIBILITY < d"
    by blast
next
  show "MAX_DIVISIBILITY = 38" by (simp add: MAX_DIVISIBILITY_def)
qed

theorem divisibility_above_max_refused_witness:
  "etching (no_fields\<lparr>etching := Some (no_etching_fields\<lparr>divisibility := Some 39\<rparr>)\<rparr>)
     = Some (no_etching_fields\<lparr>divisibility := Some 39\<rparr>)
   \<and> divisibility (no_etching_fields\<lparr>divisibility := Some 39\<rparr>) = Some 39
   \<and> int MAX_DIVISIBILITY < 39
   \<and> encodeRunestone
        (no_fields\<lparr>etching := Some (no_etching_fields\<lparr>divisibility := Some 39\<rparr>)\<rparr>)
       = Inl Divisibility_greater_than_max"
  using divisibility_above_max_refused
    [of "no_fields\<lparr>etching := Some (no_etching_fields\<lparr>divisibility := Some 39\<rparr>)\<rparr>"
        "no_etching_fields\<lparr>divisibility := Some 39\<rparr>" 39]
  by (simp add: encode_eval no_fields_def no_etching_fields_def)

subsection \<open>The symbol\<close>

lemma code_points_nonempty: "s \<noteq> [] \<Longrightarrow> code_points s \<noteq> []"
  by (induction s rule: code_points.induct) auto

lemma unat_16_less: "unat (a :: 16 word) < 65536"
  using unsigned_less [of a, where 'a = nat] by simp

lemma symbol_ok_code_points:
  "symbol_ok (Some s) \<longleftrightarrow> s = [] \<or> length (code_points s) = 1"
proof (cases s)
  case Nil
  then show ?thesis by (simp add: symbol_ok_def)
next
  case (Cons a s1)
  note s = this
  show ?thesis
  proof (cases s1)
    case Nil
    with s show ?thesis by (simp add: symbol_ok_def)
  next
    case (Cons b s2)
    note s1 = this
    show ?thesis
    proof (cases s2)
      case Nil
      with s s1 unat_16_less [of a] show ?thesis
        by (auto simp: symbol_ok_def surrogate_pair_def)
    next
      case (Cons c s3)
      with s s1 code_points_nonempty [of "c # s3"] code_points_nonempty [of "b # c # s3"]
      show ?thesis
        by (auto simp: symbol_ok_def)
    qed
  qed
qed

lemma encode_etching_symbol:
  "encode_etching e = Inr y \<Longrightarrow> symbol_ok (symbol e)"
  unfolding encode_etching_def Let_def
  by (auto simp: bind_error_Inr split: if_splits)

lemma encode_etching_symbol_Inl:
  "encode_etching e = Inl err \<Longrightarrow> \<not> symbol_ok (symbol e)
     \<Longrightarrow> err = Rune_name_error \<or> err = Symbol_must_be_one_code_point"
  unfolding encode_etching_def Let_def
  by (auto simp: bind_error_Inl dest!: encode_spaced_rune_Inl)

lemma encodeRunestone_build_Inl:
  "build_runestone r = Inl err \<Longrightarrow> encodeRunestone r = Inl err"
  by (simp add: encodeRunestone_def)

text \<open>Claim C4, as stated: for every spec whose etching symbol is not exactly one
  code point, \<open>encodeRunestone\<close> fails. The empty string has no code point at all, and
  the source reads it as an absent symbol (it is falsy in the test of lines 169-177):
  the spec is encoded.\<close>

theorem empty_symbol_is_encoded:
  "length (code_points []) \<noteq> 1
   \<and> encodeRunestone
        \<lparr>mint = None, pointer = None,
         etching = Some \<lparr>runeName = None, divisibility = None, premine = None,
                         symbol = Some [], terms = None, turbo = None\<rparr>,
         edicts = None\<rparr>
       = Inr \<lparr>encodedRunestone = [0x6a, 0x5d, 2, 2, 1], etchingCommitment = None\<rparr>"
  by (simp add: encode_eval)

text \<open>Claim C4, amended: for every spec whose etching symbol is a non-empty string
  that is not exactly one code point, \<open>encodeRunestone\<close> fails and returns no output:
  with the error of the symbol, unless the rune name or a conversion before it has
  failed already. The error of the symbol is thrown for such a symbol only.\<close>

theorem symbol_of_several_code_points_refused:
  "(etching r = Some e \<and> symbol e = Some s \<and> s \<noteq> [] \<and> length (code_points s) \<noteq> 1
      \<longrightarrow> (\<exists>err. encodeRunestone r = Inl err
             \<and> (err = Symbol_must_be_one_code_point \<or> err = Rune_name_error
                \<or> err \<in> conversion_errors)))
   \<and> (encodeRunestone r = Inl Symbol_must_be_one_code_point
      \<longrightarrow> (\<exists>e s. etching r = Some e \<and> symbol e = Some s \<and> s \<noteq> []
             \<and> length (code_points s) \<noteq> 1))"
proof (intro conjI impI)
  assume a: "etching r = Some e \<and> symbol e = Some s \<and> s \<noteq> [] \<and> length (code_points s) \<noteq> 1"
  then have bad: "\<not> symbol_ok (symbol e)"
    by (simp add: symbol_ok_code_points)
  show "\<exists>err. encodeRunestone r = Inl err
     \<and> (err = Symbol_must_be_one_code_point \<or> err = Rune_name_error \<or> err \<in> conversion_errors)"
  proof (cases "build_runestone r")
    case (Inl err)
    then have "err \<in> conversion_errors \<or> encode_etching e = Inl err"
      using build_runestone_Inl a by fastforce
    then have "err = Symbol_must_be_one_code_point \<or> err = Rune_name_error
        \<or> err \<in> conversion_errors"
      using encode_etching_symbol_Inl bad by blast
    with Inl show ?thesis
      using encodeRunestone_build_Inl by blast
  next
    case (Inr y)
    with a obtain z where "encode_etching e = Inr z"
      using build_runestone_etching by blast
    with bad show ?thesis
      using encode_etching_symbol by blast
  qed
next
  assume "encodeRunestone r = Inl Symbol_must_be_one_code_point"
  then have "build_runestone r = Inl Symbol_must_be_one_code_point"
    using encodeRunestone_Inl by blast
  then obtain e where e: "etching r = Some e"
      "encode_etching e = Inl Symbol_must_be_one_code_point"
    using build_runestone_Inl by (fastforce simp: conversion_errors_def)
  from encode_etching_Inl [OF e(2)] have "\<not> symbol_ok (symbol e)"
    by (auto simp: conversion_errors_def)
  then obtain s where "symbol e = Some s" "s \<noteq> []" "length (code_points s) \<noteq> 1"
    by (cases "symbol e") (auto simp: symbol_ok_code_points, simp add: symbol_ok_def)
  with e show "\<exists>e s. etching r = Some e \<and> symbol e = Some s \<and> s \<noteq> []
      \<and> length (code_points s) \<noteq> 1"
    by blast
qed

theorem symbol_of_several_code_points_refused_witness:
  "etching (no_fields\<lparr>etching := Some (no_etching_fields\<lparr>symbol := Some [65, 66]\<rparr>)\<rparr>)
     = Some (no_etching_fields\<lparr>symbol := Some [65, 66]\<rparr>)
   \<and> symbol (no_etching_fields\<lparr>symbol := Some [65, 66]\<rparr>) = Some [65, 66]
   \<and> [65, 66 :: 16 word] \<noteq> []
   \<and> length (code_points [65, 66]) \<noteq> 1
   \<and> encodeRunestone
        (no_fields\<lparr>etching := Some (no_etching_fields\<lparr>symbol := Some [65, 66]\<rparr>)\<rparr>)
       = Inl Symbol_must_be_one_code_point"
  using symbol_of_several_code_points_refused
    [of "no_fields\<lparr>etching := Some (no_etching_fields\<lparr>symbol := Some [65, 66]\<rparr>)\<rparr>"
        "no_etching_fields\<lparr>symbol := Some [65, 66]\<rparr>" "[65, 66]"]
  by (simp add: encode_eval no_fields_def no_etching_fields_def)

subsection \<open>The supply\<close>

text \<open>Claim C2: \<open>encodeRunestone\<close> refuses every etching whose premine plus
  \<open>terms.amount\<close> times \<open>terms.cap\<close> exceeds \<open>u128::MAX\<close>. The test of lines 216-218
  compares the product alone with the bound and leaves the premine out: with a premine
  of \<open>u128::MAX\<close>, an amount of 1 and a cap of 1 the spec is encoded, and the bytes
  decode to a cenotaph with the flaw \<open>supply_overflow\<close>.\<close>

theorem supply_overflow_is_encoded:
  "(2 ^ 128 - 1) + 1 * 1 > int u128_MAX
   \<and> encodeRunestone
        \<lparr>mint = None, pointer = None,
         etching = Some \<lparr>runeName = None, divisibility = None,
                         premine = Some (2 ^ 128 - 1), symbol = None,
                         terms = Some \<lparr>terms_amount = Some 1, terms_cap = Some 1,
                                       terms_height = None, terms_offset = None\<rparr>,
                         turbo = None\<rparr>,
         edicts = None\<rparr>
       = Inr \<lparr>encodedRunestone =
                [0x6a, 0x5d, 26, 2, 3, 6, 255, 255, 255, 255, 255, 255, 255, 255, 255, 255,
                 255, 255, 255, 255, 255, 255, 255, 255, 3, 8, 1, 10, 1],
              etchingCommitment = None\<rparr>
   \<and> tryDecodeRunestone
        \<lparr>vout = [[0x6a, 0x5d, 26, 2, 3, 6, 255, 255, 255, 255, 255, 255, 255, 255, 255, 255,
                   255, 255, 255, 255, 255, 255, 255, 255, 3, 8, 1, 10, 1]]\<rparr>
       = Some (DecodedCenotaph
                \<lparr>flaws = [''supply_overflow''], cenotaph_etching = None,
                 cenotaph_mint = None\<rparr>)"
  by (simp add: encode_eval decode_eval)

subsection \<open>The spacers\<close>

lemma field_mem [simp]: "(t', x) \<in> set (field t v) \<longleftrightarrow> t' = t \<and> v = Some x"
  by (cases v) (auto simp: field_def)

lemma field_tags [simp]: "t' \<in> fst ` set (field t v) \<longleftrightarrow> t' = t \<and> v \<noteq> None"
  by (cases v) (auto simp: field_def)

lemma scan_spaced_no_bullet:
  "bullet \<notin> set s \<Longrightarrow> scan_spaced s l sp = Some (l', sp') \<Longrightarrow> sp' = sp"
  by (induction s arbitrary: l) (auto split: if_splits)

lemma fromString_no_bullet:
  "bullet \<notin> set s \<Longrightarrow> SpacedRune_fromString s = Inr sr \<Longrightarrow> sr_spacers sr = 0"
  by (auto simp: SpacedRune_fromString_def split: option.splits prod.splits if_splits
      dest: scan_spaced_no_bullet)

lemma build_runestone_Inr_etching:
  "build_runestone r = Inr (rs, c) \<Longrightarrow> etching r = Some e
     \<Longrightarrow> \<exists>et. encode_etching e = Inr (et, c) \<and> rs_etching rs = Some et"
  unfolding build_runestone_def
  by (auto simp: bind_error_Inr)

lemma encode_etching_Inr_rune:
  "encode_etching e = Inr (et, c)
     \<Longrightarrow> \<exists>sr. encode_spaced_rune (runeName e) = Inr sr
            \<and> encode_spacers sr = Inr (et_spacers et)
            \<and> et_rune et = map_option sr_rune sr
            \<and> c = map_option commitment (map_option sr_rune sr)"
  unfolding encode_etching_def Let_def
  by (auto simp: bind_error_Inr split: if_splits)

lemma encode_spaced_rune_Inr:
  "encode_spaced_rune name = Inr sr \<longleftrightarrow>
     ((name = None \<or> name = Some []) \<and> sr = None)
     \<or> (\<exists>n sr'. name = Some n \<and> n \<noteq> [] \<and> SpacedRune_fromString n = Inr sr' \<and> sr = Some sr')"
  by (cases name) (auto simp: encode_spaced_rune_def bind_error_Inr)

lemma encode_spacers_Inr:
  "encode_spacers sr = Inr sp \<Longrightarrow>
     sp \<noteq> Some 0 \<and> (sr = None \<longrightarrow> sp = None)
     \<and> (\<forall>x. sr = Some x \<longrightarrow> sr_spacers x = 0 \<longrightarrow> sp = None)
     \<and> (\<forall>x. sr = Some x \<longrightarrow> sr_spacers x \<noteq> 0 \<longrightarrow> sp = Some (sr_spacers x))"
  by (cases sr) (auto simp: encode_spacers_def bind_error_Inr strict_Inr split: if_splits)

lemma terms_fields_tags:
  "t \<in> fst ` set (terms_fields tm) \<Longrightarrow> t \<in> {8, 10, 12, 14, 16, 18}"
  by (auto simp: terms_fields_def)

lemma spacers_field_only:
  assumes "(Tag_Spacers, x) \<in> set (runestone_fields rs)"
  shows "\<exists>et. rs_etching rs = Some et \<and> et_spacers et = Some x"
proof (cases "rs_etching rs")
  case None
  with assms show ?thesis
    by (auto simp: runestone_fields_def mint_fields_def split: option.splits)
next
  case (Some et)
  with assms show ?thesis
    by (cases "et_terms et")
      (auto simp: runestone_fields_def etching_fields_def mint_fields_def terms_fields_def
        split: option.splits)
qed

lemmas name_eval =
  SpacedRune_fromString_def Rune_fromString_def is_letter_def letter_index_def bullet_def
  bit_iff_odd

text \<open>Claim C9: \<open>encodeRunestone\<close> turns a spacer mask of zero into an absent field.
  The etching it builds never carries the spacers \<open>0\<close>, and the fields that
  \<open>encipher\<close> writes never hold the pair of the spacers tag and \<open>0\<close>; for a rune name
  without separators (or no rune name) the etching carries no spacers and no spacers
  tag is written at all.\<close>

theorem spacers_zero_is_absent:
  "build_runestone r = Inr (rs, c) \<and> etching r = Some e \<longrightarrow>
     (\<exists>et. rs_etching rs = Some et
        \<and> et_spacers et \<noteq> Some 0
        \<and> (Tag_Spacers, 0) \<notin> set (runestone_fields rs)
        \<and> ((\<forall>n. runeName e = Some n \<longrightarrow> bullet \<notin> set n)
             \<longrightarrow> et_spacers et = None
                 \<and> (\<forall>x. (Tag_Spacers, x) \<notin> set (runestone_fields rs))))"
proof (intro impI, elim conjE)
  assume b: "build_runestone r = Inr (rs, c)" and e: "etching r = Some e"
  then obtain et where et: "encode_etching e = Inr (et, c)" "rs_etching rs = Some et"
    using build_runestone_Inr_etching by blast
  then obtain sr where sr: "encode_spaced_rune (runeName e) = Inr sr"
      "encode_spacers sr = Inr (et_spacers et)"
    using encode_etching_Inr_rune by blast
  have nz: "et_spacers et \<noteq> Some 0"
    using encode_spacers_Inr [OF sr(2)] by simp
  have absent: "et_spacers et = None" if "\<forall>n. runeName e = Some n \<longrightarrow> bullet \<notin> set n"
  proof (cases sr)
    case None
    then show ?thesis using encode_spacers_Inr [OF sr(2)] by simp
  next
    case (Some x)
    with sr(1) obtain n where "runeName e = Some n" "SpacedRune_fromString n = Inr x"
      by (auto simp: encode_spaced_rune_Inr)
    with that have "sr_spacers x = 0"
      using fromString_no_bullet by blast
    with Some show ?thesis using encode_spacers_Inr [OF sr(2)] by simp
  qed
  have fields: "et_spacers et = Some x" if "(Tag_Spacers, x) \<in> set (runestone_fields rs)" for x
    using spacers_field_only [OF that] et(2) by simp
  show "\<exists>et. rs_etching rs = Some et
        \<and> et_spacers et \<noteq> Some 0
        \<and> (Tag_Spacers, 0) \<notin> set (runestone_fields rs)
        \<and> ((\<forall>n. runeName e = Some n \<longrightarrow> bullet \<notin> set n)
             \<longrightarrow> et_spacers et = None
                 \<and> (\<forall>x. (Tag_Spacers, x) \<notin> set (runestone_fields rs)))"
    using et(2) nz absent fields by (intro exI [of _ et]) auto
qed

theorem spacers_zero_is_absent_witness:
  "build_runestone (no_fields\<lparr>etching := Some (no_etching_fields\<lparr>runeName := Some [65, 66]\<rparr>)\<rparr>)
     = Inr (\<lparr>rs_mint = None, rs_pointer = None, rs_edicts = [],
             rs_etching = Some \<lparr>et_divisibility = None, et_rune = Some 27, et_spacers = None,
                                 et_symbol = None, et_terms = None, et_premine = None,
                                 et_turbo = False\<rparr>\<rparr>,
            Some (commitment 27))
   \<and> etching (no_fields\<lparr>etching := Some (no_etching_fields\<lparr>runeName := Some [65, 66]\<rparr>)\<rparr>)
       = Some (no_etching_fields\<lparr>runeName := Some [65, 66]\<rparr>)
   \<and> runeName (no_etching_fields\<lparr>runeName := Some [65, 66]\<rparr>) = Some [65, 66]
   \<and> bullet \<notin> set [65, 66]
   \<and> (\<forall>x. (Tag_Spacers, x) \<notin> set (runestone_fields
          \<lparr>rs_mint = None, rs_pointer = None, rs_edicts = [],
             rs_etching = Some \<lparr>et_divisibility = None, et_rune = Some 27, et_spacers = None,
                                 et_symbol = None, et_terms = None, et_premine = None,
                                 et_turbo = False\<rparr>\<rparr>))"
  using spacers_zero_is_absent
    [of "no_fields\<lparr>etching := Some (no_etching_fields\<lparr>runeName := Some [65, 66]\<rparr>)\<rparr>"
        "\<lparr>rs_mint = None, rs_pointer = None, rs_edicts = [],
             rs_etching = Some \<lparr>et_divisibility = None, et_rune = Some 27, et_spacers = None,
                                 et_symbol = None, et_terms = None, et_premine = None,
                                 et_turbo = False\<rparr>\<rparr>"
        "Some (commitment 27)"
        "no_etching_fields\<lparr>runeName := Some [65, 66]\<rparr>"]
  by (simp add: encode_eval name_eval no_fields_def no_etching_fields_def)

subsection \<open>The commitment\<close>

lemma le_value_append: "le_value (xs @ ys) = le_value xs + 256 ^ length xs * le_value ys"
  by (induction xs) (auto simp: algebra_simps)

lemma unat_byte_of_nat: "n < 256 \<Longrightarrow> unat (of_nat n :: byte) = n"
  by (simp add: unat_of_nat)

lemma le_value_bytes:
  "le_value (map (\<lambda>i. of_nat (v div 256 ^ i mod 256) :: byte) [0..<n]) = v mod 256 ^ n"
proof (induction n)
  case 0
  show ?case by simp
next
  case (Suc n)
  have "v mod (256 ^ n * 256) = 256 ^ n * (v div 256 ^ n mod 256) + v mod 256 ^ n"
    by (rule mod_mult2_eq)
  with Suc show ?case
    by (simp add: le_value_append unat_byte_of_nat mult.commute)
qed

lemma le_value_trim:
  "le_value (rev (dropWhile (\<lambda>b. b = 0) (rev xs))) = le_value xs"
  by (induction xs rule: rev_induct) (auto simp: le_value_append)

lemma le_value_commitment: "v < 2 ^ 128 \<Longrightarrow> le_value (commitment v) = v"
  using le_value_bytes [of v 16] by (simp add: commitment_def le_bytes16_def le_value_trim)

lemma commitment_trimmed: "commitment v = [] \<or> last (commitment v) \<noteq> 0"
proof (cases "dropWhile (\<lambda>b. b = 0) (rev (le_bytes16 v))")
  case Nil
  then show ?thesis by (simp add: commitment_def)
next
  case (Cons a as)
  then have "\<not> (hd (dropWhile (\<lambda>b. b = 0) (rev (le_bytes16 v))) = 0)"
    using hd_dropWhile [of "\<lambda>b. b = 0" "rev (le_bytes16 v)"] by simp
  with Cons show ?thesis by (simp add: commitment_def)
qed

lemma commitment_length: "length (commitment v) \<le> 16"
proof -
  have "length (dropWhile (\<lambda>b. b = 0) (rev (le_bytes16 v))) \<le> length (rev (le_bytes16 v))"
    by (rule length_dropWhile_le)
  then show ?thesis by (simp add: commitment_def le_bytes16_def)
qed

lemma fromString_rune_bound:
  "SpacedRune_fromString n = Inr sr \<Longrightarrow> sr_rune sr \<le> u128_MAX"
  by (auto simp: SpacedRune_fromString_def Rune_fromString_def Let_def
      split: option.splits prod.splits if_splits list.splits)

lemma encodeRunestone_Inr:
  "encodeRunestone r = Inr out \<Longrightarrow>
     \<exists>rs ints. build_runestone r = Inr (rs, etchingCommitment out)
        \<and> message_integers rs = Some ints
        \<and> encodedRunestone out = script_of_payload (concat (map encodeVarInt ints))"
  by (auto simp: encodeRunestone_def bind_error_Inr encipher_def split: option.splits)

lemma etching_flags_odd: "bit (etching_flags et) Flag_Etching"
  by (simp add: etching_flags_def bit_iff_odd)

lemma message_integers_etching:
  "message_integers rs = Some ints \<Longrightarrow> rs_etching rs = Some et
     \<Longrightarrow> \<exists>rest. ints = Tag_Flags # etching_flags et # rest"
  by (auto simp: message_integers_def runestone_fields_def etching_fields_def)

lemma commitment_27: "commitment 27 = [27]"
  by (simp add: commitment_def le_bytes16_def upt_rec)

text \<open>Claim C6: with a rune name in the etching, the \<open>etchingCommitment\<close> that
  \<open>encodeRunestone\<close> returns is the commitment of the rune of that name: at most 16
  bytes that read, in little-endian order, as the 128-bit number of the rune, the most
  significant byte not being zero. Without a rune name (absent, or empty and so falsy)
  the commitment is \<open>undefined\<close>, and the etching is encoded all the same: the script
  carries a payload that starts with the flags, the etching flag set.\<close>

theorem commitment_of_rune_name:
  "encodeRunestone r = Inr out \<and> etching r = Some e \<longrightarrow>
     (\<forall>n. runeName e = Some n \<and> n \<noteq> [] \<longrightarrow>
        (\<exists>sr. SpacedRune_fromString n = Inr sr
           \<and> etchingCommitment out = Some (commitment (sr_rune sr))
           \<and> sr_rune sr < 2 ^ 128
           \<and> le_value (commitment (sr_rune sr)) = sr_rune sr
           \<and> length (commitment (sr_rune sr)) \<le> 16
           \<and> (commitment (sr_rune sr) = [] \<or> last (commitment (sr_rune sr)) \<noteq> 0)))
     \<and> (runeName e = None \<or> runeName e = Some [] \<longrightarrow>
          etchingCommitment out = None
          \<and> (\<exists>flags rest.
                encodedRunestone out
                  = script_of_payload (concat (map encodeVarInt (Tag_Flags # flags # rest)))
                \<and> bit flags Flag_Etching))"
proof (intro impI, elim conjE)
  assume enc: "encodeRunestone r = Inr out" and e: "etching r = Some e"
  from enc obtain rs ints where rs: "build_runestone r = Inr (rs, etchingCommitment out)"
      "message_integers rs = Some ints"
      "encodedRunestone out = script_of_payload (concat (map encodeVarInt ints))"
    using encodeRunestone_Inr by blast
  from rs(1) e obtain et where et: "encode_etching e = Inr (et, etchingCommitment out)"
      "rs_etching rs = Some et"
    using build_runestone_Inr_etching by blast
  then obtain sr where sr: "encode_spaced_rune (runeName e) = Inr sr"
      "etchingCommitment out = map_option commitment (map_option sr_rune sr)"
    using encode_etching_Inr_rune by blast
  have named: "\<exists>sr. SpacedRune_fromString n = Inr sr
           \<and> etchingCommitment out = Some (commitment (sr_rune sr))
           \<and> sr_rune sr < 2 ^ 128
           \<and> le_value (commitment (sr_rune sr)) = sr_rune sr
           \<and> length (commitment (sr_rune sr)) \<le> 16
           \<and> (commitment (sr_rune sr) = [] \<or> last (commitment (sr_rune sr)) \<noteq> 0)"
    if "runeName e = Some n \<and> n \<noteq> []" for n
  proof -
    from that sr(1) obtain x where x: "SpacedRune_fromString n = Inr x" "sr = Some x"
      by (auto simp: encode_spaced_rune_Inr)
    then have "sr_rune x < 2 ^ 128"
      using fromString_rune_bound [of n x] by (simp add: u128_MAX_def)
    with x sr(2) show ?thesis
      using le_value_commitment commitment_length commitment_trimmed by auto
  qed
  have unnamed: "etchingCommitment out = None
          \<and> (\<exists>flags rest.
                encodedRunestone out
                  = script_of_payload (concat (map encodeVarInt (Tag_Flags # flags # rest)))
                \<and> bit flags Flag_Etching)"
    if "runeName e = None \<or> runeName e = Some []"
  proof -
    from that sr(1) have "sr = None"
      by (auto simp: encode_spaced_rune_Inr)
    moreover obtain rest where "ints = Tag_Flags # etching_flags et # rest"
      using message_integers_etching [OF rs(2) et(2)] by blast
    ultimately show ?thesis
      using sr(2) rs(3) etching_flags_odd by auto
  qed
  from named unnamed show "(\<forall>n. runeName e = Some n \<and> n \<noteq> [] \<longrightarrow>
        (\<exists>sr. SpacedRune_fromString n = Inr sr
           \<and> etchingCommitment out = Some (commitment (sr_rune sr))
           \<and> sr_rune sr < 2 ^ 128
           \<and> le_value (commitment (sr_rune sr)) = sr_rune sr
           \<and> length (commitment (sr_rune sr)) \<le> 16
           \<and> (commitment (sr_rune sr) = [] \<or> last (commitment (sr_rune sr)) \<noteq> 0)))
     \<and> (runeName e = None \<or> runeName e = Some [] \<longrightarrow>
          etchingCommitment out = None
          \<and> (\<exists>flags rest.
                encodedRunestone out
                  = script_of_payload (concat (map encodeVarInt (Tag_Flags # flags # rest)))
                \<and> bit flags Flag_Etching))"
    by blast
qed

theorem commitment_of_rune_name_witness:
  "encodeRunestone (no_fields\<lparr>etching := Some (no_etching_fields\<lparr>runeName := Some [65, 66]\<rparr>)\<rparr>)
     = Inr \<lparr>encodedRunestone = [0x6a, 0x5d, 4, 2, 1, 4, 27], etchingCommitment = Some [27]\<rparr>
   \<and> SpacedRune_fromString [65, 66] = Inr \<lparr>sr_rune = 27, sr_spacers = 0\<rparr>
   \<and> le_value [27] = 27
   \<and> encodeRunestone (no_fields\<lparr>etching := Some no_etching_fields\<rparr>)
     = Inr \<lparr>encodedRunestone = [0x6a, 0x5d, 2, 2, 1], etchingCommitment = None\<rparr>"
  using commitment_of_rune_name
    [of "no_fields\<lparr>etching := Some (no_etching_fields\<lparr>runeName := Some [65, 66]\<rparr>)\<rparr>"
        "\<lparr>encodedRunestone = [0x6a, 0x5d, 4, 2, 1, 4, 27], etchingCommitment = Some [27]\<rparr>"
        "no_etching_fields\<lparr>runeName := Some [65, 66]\<rparr>"]
    commitment_of_rune_name
    [of "no_fields\<lparr>etching := Some no_etching_fields\<rparr>"
        "\<lparr>encodedRunestone = [0x6a, 0x5d, 2, 2, 1], etchingCommitment = None\<rparr>"
        "no_etching_fields"]
  by (simp add: encode_eval name_eval no_fields_def no_etching_fields_def commitment_27)

subsection \<open>The outcomes of decoding\<close>

lemma present_flaws [simp]: "name \<noteq> ''flaws'' \<Longrightarrow> ''flaws'' \<notin> set (present name v)"
  by (cases v) (auto simp: present_def)

lemma isRunestone_iff: "isRunestone a \<longleftrightarrow> (\<exists>r. a = DecodedRunestone r)"
  by (cases a) (auto simp: isRunestone_def)

lemma tryDecodeRunestone_Runestone:
  "(\<exists>r. tryDecodeRunestone t = Some (DecodedRunestone r))
     \<longleftrightarrow> (\<exists>rs. decipher t = Some (ArtRunestone rs))"
  by (auto simp: tryDecodeRunestone_def split: option.splits Artifact.splits)

text \<open>Claim C10: \<open>isRunestone\<close> is true exactly when the object has no property
  \<open>flaws\<close>, and it tells the two results of \<open>tryDecodeRunestone\<close> apart: it is true of
  a result exactly when \<open>decipher\<close> has returned a runestone; a decoded
  \<open>RunestoneSpec\<close> has no property \<open>flaws\<close>, a decoded \<open>Cenotaph\<close> has it.\<close>

theorem isRunestone_classifies:
  "isRunestone a = (''flaws'' \<notin> set (properties a))
   \<and> (tryDecodeRunestone t = Some a \<longrightarrow>
        (isRunestone a \<longleftrightarrow> (\<exists>rs. decipher t = Some (ArtRunestone rs)))
        \<and> (\<forall>r. a = DecodedRunestone r \<longrightarrow> ''flaws'' \<notin> set (properties a))
        \<and> (\<forall>c. a = DecodedCenotaph c \<longrightarrow> ''flaws'' \<in> set (properties a) \<and> \<not> isRunestone a))"
proof (intro conjI impI)
  show "isRunestone a = (''flaws'' \<notin> set (properties a))"
    by (simp add: isRunestone_def)
next
  assume d: "tryDecodeRunestone t = Some a"
  show "isRunestone a \<longleftrightarrow> (\<exists>rs. decipher t = Some (ArtRunestone rs))"
    using d tryDecodeRunestone_Runestone [of t] by (auto simp: isRunestone_iff)
  show "\<forall>r. a = DecodedRunestone r \<longrightarrow> ''flaws'' \<notin> set (properties a)"
    by auto
  show "\<forall>c. a = DecodedCenotaph c \<longrightarrow> ''flaws'' \<in> set (properties a) \<and> \<not> isRunestone a"
    by (auto simp: isRunestone_def)
qed

theorem isRunestone_classifies_witness:
  "tryDecodeRunestone \<lparr>vout = [[0x6a, 0x5d]]\<rparr> = Some (DecodedRunestone no_fields)
   \<and> isRunestone (DecodedRunestone no_fields)
   \<and> decipher \<lparr>vout = [[0x6a, 0x5d]]\<rparr>
       = Some (ArtRunestone \<lparr>rs_mint = None, rs_pointer = None, rs_edicts = [],
                             rs_etching = None\<rparr>)
   \<and> tryDecodeRunestone \<lparr>vout = [[0x6a, 0x5d, 0x93]]\<rparr>
       = Some (DecodedCenotaph \<lparr>flaws = [''opcode''], cenotaph_etching = None,
                                cenotaph_mint = None\<rparr>)
   \<and> \<not> isRunestone (DecodedCenotaph \<lparr>flaws = [''opcode''], cenotaph_etching = None,
                                cenotaph_mint = None\<rparr>)"
  using isRunestone_classifies
    [of "DecodedRunestone no_fields" "\<lparr>vout = [[0x6a, 0x5d]]\<rparr>"]
    isRunestone_classifies
    [of "DecodedCenotaph \<lparr>flaws = [''opcode''], cenotaph_etching = None,
                                cenotaph_mint = None\<rparr>"
        "\<lparr>vout = [[0x6a, 0x5d, 0x93]]\<rparr>"]
  by (simp add: decode_eval no_fields_def isRunestone_def present_def)

lemma payload_None: "payload outs = None \<longleftrightarrow> (\<forall>s \<in> set outs. take 2 s \<noteq> [OP_RETURN, OP_13])"
proof (induction outs)
  case Nil
  show ?case by simp
next
  case (Cons s outs)
  show ?case
  proof (cases s)
    case Nil
    with Cons show ?thesis by simp
  next
    case c1: (Cons a s1)
    show ?thesis
    proof (cases s1)
      case Nil
      with c1 Cons show ?thesis by simp
    next
      case c2: (Cons b s2)
      with c1 Cons show ?thesis by auto
    qed
  qed
qed

lemma decipher_None: "decipher t = None \<longleftrightarrow> payload (vout t) = None"
  by (auto simp: decipher_def split: option.splits Payload.splits)

lemma tryDecodeRunestone_None: "tryDecodeRunestone t = None \<longleftrightarrow> decipher t = None"
  by (auto simp: tryDecodeRunestone_def split: option.splits Artifact.splits)

text \<open>Claim C3: for every transaction \<open>tryDecodeRunestone\<close> returns exactly one of
  three outcomes that exclude one another: \<open>null\<close>, which it does exactly when no
  output script starts with \<open>OP_RETURN\<close> and \<open>OP_13\<close>; a \<open>RunestoneSpec\<close>; or a
  \<open>Cenotaph\<close>, which carries a list of flaws.\<close>

theorem tryDecodeRunestone_outcomes:
  "(tryDecodeRunestone t = None
      \<longleftrightarrow> (\<forall>s \<in> set (vout t). take 2 s \<noteq> [OP_RETURN, OP_13]))
   \<and> ((tryDecodeRunestone t = None
         \<and> (\<forall>r. tryDecodeRunestone t \<noteq> Some (DecodedRunestone r))
         \<and> (\<forall>c. tryDecodeRunestone t \<noteq> Some (DecodedCenotaph c)))
       \<or> ((\<exists>r. tryDecodeRunestone t = Some (DecodedRunestone r))
         \<and> tryDecodeRunestone t \<noteq> None
         \<and> (\<forall>c. tryDecodeRunestone t \<noteq> Some (DecodedCenotaph c)))
       \<or> ((\<exists>c. tryDecodeRunestone t = Some (DecodedCenotaph c))
         \<and> tryDecodeRunestone t \<noteq> None
         \<and> (\<forall>r. tryDecodeRunestone t \<noteq> Some (DecodedRunestone r))))"
proof
  show "tryDecodeRunestone t = None \<longleftrightarrow> (\<forall>s \<in> set (vout t). take 2 s \<noteq> [OP_RETURN, OP_13])"
    by (simp add: tryDecodeRunestone_None decipher_None payload_None)
next
  show "(tryDecodeRunestone t = None
         \<and> (\<forall>r. tryDecodeRunestone t \<noteq> Some (DecodedRunestone r))
         \<and> (\<forall>c. tryDecodeRunestone t \<noteq> Some (DecodedCenotaph c)))
       \<or> ((\<exists>r. tryDecodeRunestone t = Some (DecodedRunestone r))
         \<and> tryDecodeRunestone t \<noteq> None
         \<and> (\<forall>c. tryDecodeRunestone t \<noteq> Some (DecodedCenotaph c)))
       \<or> ((\<exists>c. tryDecodeRunestone t = Some (DecodedCenotaph c))
         \<and> tryDecodeRunestone t \<noteq> None
         \<and> (\<forall>r. tryDecodeRunestone t \<noteq> Some (DecodedRunestone r)))"
  proof (cases "tryDecodeRunestone t")
    case None
    then show ?thesis by simp
  next
    case (Some a)
    then show ?thesis by (cases a) simp_all
  qed
qed

theorem tryDecodeRunestone_outcomes_witness:
  "tryDecodeRunestone \<lparr>vout = [[0x6a, 0x51], []]\<rparr> = None
   \<and> take 2 [0x6a, 0x51] \<noteq> [OP_RETURN, OP_13]
   \<and> take 2 [] \<noteq> [OP_RETURN, OP_13]
   \<and> tryDecodeRunestone \<lparr>vout = [[0x6a, 0x51], [0x6a, 0x5d]]\<rparr>
       = Some (DecodedRunestone no_fields)
   \<and> tryDecodeRunestone \<lparr>vout = [[0x6a, 0x5d, 0x93]]\<rparr>
       = Some (DecodedCenotaph \<lparr>flaws = [''opcode''], cenotaph_etching = None,
                                cenotaph_mint = None\<rparr>)"
  using tryDecodeRunestone_outcomes [of "\<lparr>vout = [[0x6a, 0x51], []]\<rparr>"]
    tryDecodeRunestone_outcomes [of "\<lparr>vout = [[0x6a, 0x51], [0x6a, 0x5d]]\<rparr>"]
    tryDecodeRunestone_outcomes [of "\<lparr>vout = [[0x6a, 0x5d, 0x93]]\<rparr>"]
  by (simp add: decode_eval no_fields_def)







subsection \<open>Decoding what the library encodes\<close>

paragraph \<open>Varints\<close>

lemma unat_byte_high: "unat (of_nat (v mod 128) + 128 :: byte) = v mod 128 + 128"
proof -
  have "(of_nat (v mod 128) + 128 :: byte) = of_nat (v mod 128 + 128)"
    by simp
  moreover have "unat (of_nat (v mod 128 + 128) :: byte) = v mod 128 + 128"
    by (simp only: unat_of_nat) simp
  ultimately show ?thesis by simp
qed

lemma integers_from_encodeVarInt:
  "v < 2 ^ (128 - 7 * i) \<Longrightarrow> i \<le> 18 \<Longrightarrow>
     integers_from i acc (encodeVarInt v @ rest)
       = map_option ((#) (acc + v * 2 ^ (7 * i))) (integers_from 0 0 rest)"
proof (induction v arbitrary: i acc rule: encodeVarInt.induct)
  case (1 v)
  show ?case
  proof (cases "128 \<le> v")
    case False
    then have v: "v < 128" by simp
    have "v < 4" if "i = 18"
      using "1.prems" that by simp
    with v show ?thesis
      by (auto simp: encodeVarInt_small unat_byte_of_nat)
  next
    case True
    have i: "i < 18"
    proof (rule ccontr)
      assume "\<not> i < 18"
      with "1.prems" have "v < 4" by simp
      with True show False by simp
    qed
    have "(2::nat) ^ (128 - 7 * i) = 128 * 2 ^ (128 - 7 * Suc i)"
    proof -
      have "128 - 7 * i = 7 + (128 - 7 * Suc i)" using i by simp
      then show ?thesis by (simp only: power_add) simp
    qed
    with "1.prems" have small: "v div 128 < 2 ^ (128 - 7 * Suc i)"
      by (simp add: less_mult_imp_div_less mult.commute)
    have "integers_from (Suc i) (acc + v mod 128 * 2 ^ (7 * i)) (encodeVarInt (v div 128) @ rest)
        = map_option ((#) (acc + v mod 128 * 2 ^ (7 * i) + v div 128 * 2 ^ (7 * Suc i)))
            (integers_from 0 0 rest)"
      using "1.IH" [OF True small] i by simp
    moreover have "v mod 128 * 2 ^ (7 * i) + v div 128 * 2 ^ (7 * Suc i) = v * 2 ^ (7 * i)"
    proof -
      have p: "(2::nat) ^ (7 * Suc i) = 128 * 2 ^ (7 * i)"
        by (simp add: power_add)
      have "v mod 128 * 2 ^ (7 * i) + v div 128 * (128 * 2 ^ (7 * i))
          = (v mod 128 + v div 128 * 128) * 2 ^ (7 * i)"
        by (simp only: distrib_right mult.assoc)
      also have "\<dots> = v * 2 ^ (7 * i)" by simp
      finally show ?thesis by (simp only: p)
    qed
    ultimately show ?thesis
      using True i by (simp add: encodeVarInt_big unat_byte_high add.assoc)
  qed
qed

lemma integers_encode:
  "\<forall>v \<in> set ints. v < 2 ^ 128 \<Longrightarrow> integers (concat (map encodeVarInt ints)) = Some ints"
proof (induction ints)
  case Nil
  show ?case by (simp add: integers_def)
next
  case (Cons v ints)
  then show ?case
    using integers_from_encodeVarInt [of v 0 0 "concat (map encodeVarInt ints)"]
    by (simp add: integers_def)
qed

paragraph \<open>Scripts\<close>

lemma pushes_from_data:
  "pushes_from (length d) (d @ rest) = map_sum id ((@) d) (pushes_from 0 rest)"
proof (induction d)
  case Nil
  show ?case by (cases "pushes_from 0 rest") simp_all
next
  case (Cons b d)
  then show ?case by (cases "pushes_from 0 rest") simp_all
qed

lemma pushes_from_push_bytes:
  assumes "length d \<le> 520"
  shows "pushes_from 0 (push_bytes d @ rest) = map_sum id ((@) d) (pushes_from 0 rest)"
proof -
  consider "length d \<le> 75" | "75 < length d" "length d \<le> 255" | "255 < length d"
    by linarith
  then show ?thesis
  proof cases
    case 1
    then have "unat (of_nat (length d) :: byte) = length d"
      by (simp add: unat_byte_of_nat)
    with 1 show ?thesis
      by (simp add: push_bytes_def pushes_from_data)
  next
    case 2
    then have "unat (of_nat (length d) :: byte) = length d"
      by (simp add: unat_byte_of_nat)
    with 2 show ?thesis
      by (simp add: push_bytes_def pushes_from_data)
  next
    case 3
    with assms have "length d div 256 < 256" by simp
    then have "unat (of_nat (length d mod 256) :: byte) + 256 * unat (of_nat (length d div 256) :: byte)
        = length d"
      by (simp add: unat_byte_of_nat)
    with 3 show ?thesis
      by (simp add: push_bytes_def pushes_from_data Let_def)
  qed
qed

lemma chunks_concat: "concat (chunks p) = p"
  by (induction p rule: chunks.induct) (subst chunks.simps, simp)

lemma chunks_length: "c \<in> set (chunks p) \<Longrightarrow> length c \<le> 520"
proof (induction p rule: chunks.induct)
  case (1 p)
  from "1.prems" show ?case
    by (subst (asm) chunks.simps) (auto simp: MAX_SCRIPT_ELEMENT_SIZE_def "1.IH" split: if_splits)
qed

lemma pushes_from_chunks:
  "\<forall>c \<in> set cs. length c \<le> 520
     \<Longrightarrow> pushes_from 0 (concat (map push_bytes cs)) = Inr (concat cs)"
  by (induction cs) (simp_all add: pushes_from_push_bytes)

lemma pushes_from_script: "pushes_from 0 (concat (map push_bytes (chunks p))) = Inr p"
  using pushes_from_chunks [of "chunks p"] chunks_length [of _ p] by (simp add: chunks_concat)

lemma payload_skip:
  "take 2 s \<noteq> [OP_RETURN, OP_13] \<Longrightarrow> payload (s # outs) = payload outs"
proof (cases s)
  case Nil
  then show ?thesis by simp
next
  case c1: (Cons a s1)
  assume t: "take 2 s \<noteq> [OP_RETURN, OP_13]"
  show ?thesis
  proof (cases s1)
    case Nil
    with c1 show ?thesis by simp
  next
    case (Cons b s2)
    with c1 t show ?thesis by auto
  qed
qed

lemma payload_script:
  "\<forall>s \<in> set pre. take 2 s \<noteq> [OP_RETURN, OP_13]
     \<Longrightarrow> payload (pre @ script_of_payload p # post) = Some (Valid p)"
proof (induction pre)
  case Nil
  show ?case by (simp add: script_of_payload_def pushes_from_script)
next
  case (Cons s pre)
  then show ?case by (simp add: payload_skip del: payload.simps)
qed

paragraph \<open>The message\<close>

lemma parse_message_fields:
  "Tag_Body \<notin> fst ` set fs \<Longrightarrow>
     parse_message n (field_integers fs @ body)
       = (parse_message n body)\<lparr>msg_fields := fs @ msg_fields (parse_message n body)\<rparr>"
proof (induction fs)
  case Nil
  show ?case by simp
next
  case (Cons f fs)
  obtain t v where f: "f = (t, v)" by (cases f)
  with Cons show ?case by (simp add: Let_def)
qed

lemma delta_next_id:
  assumes "rune_id_key prev \<le> rune_id_key next"
  shows "\<exists>bd td. delta prev next = Some (bd, td) \<and> next_id prev bd td = next
     \<and> bd \<le> id_block next \<and> td \<le> id_tx next"
proof (cases "id_block prev = id_block next")
  case True
  with assms have "id_tx prev \<le> id_tx next"
    by (simp add: rune_id_key_def less_eq_prod_def)
  with True show ?thesis
    by (simp add: delta_def next_id_def)
next
  case False
  with assms have "id_block prev < id_block next"
    by (auto simp: rune_id_key_def less_eq_prod_def)
  then show ?thesis
    by (simp add: delta_def next_id_def)
qed

lemma edicts_roundtrip:
  assumes "sorted (map (\<lambda>e. rune_id_key (ed_id e)) es)"
    and "\<forall>e \<in> set es. rune_id_key prev \<le> rune_id_key (ed_id e)"
    and "\<forall>e \<in> set es. edict_valid n e"
  shows "\<exists>ints. edict_integers prev es = Some ints \<and> parse_edicts n prev ints = (es, [])
     \<and> (\<forall>v \<in> set ints. v \<le> u128_MAX)"
  using assms
proof (induction es arbitrary: prev)
  case Nil
  show ?case by simp
next
  case (Cons e es)
  from Cons.prems obtain bd td where d: "delta prev (ed_id e) = Some (bd, td)"
      "next_id prev bd td = ed_id e" "bd \<le> id_block (ed_id e)" "td \<le> id_tx (ed_id e)"
    using delta_next_id [of prev "ed_id e"] by auto
  from Cons.prems obtain ints where ints: "edict_integers (ed_id e) es = Some ints"
      "parse_edicts n (ed_id e) ints = (es, [])" "\<forall>v \<in> set ints. v \<le> u128_MAX"
    using Cons.IH [of "ed_id e"] by auto
  from Cons.prems have v: "edict_valid n e" by simp
  then have small: "bd \<le> u128_MAX" "td \<le> u128_MAX" "ed_amount e \<le> u128_MAX"
      "ed_output e \<le> u128_MAX"
    using d(3,4)
    by (auto simp: edict_valid_def id_flawed_def u64_MAX_def u32_MAX_def u128_MAX_def)
  from v have ok: "\<not> id_flawed (ed_id e)" "\<not> n < ed_output e"
    by (auto simp: edict_valid_def)
  show ?case
    using d(1,2) ints small ok by simp
qed

lemma sort_key_sorted: "sorted (map f xs) \<Longrightarrow> sort_key f xs = xs"
  by (induction xs) (auto simp: insort_is_Cons)

lemma zero_key_least: "rune_id_key \<lparr>id_block = 0, id_tx = 0\<rparr> \<le> k"
  by (cases k) (simp add: rune_id_key_def less_eq_prod_def)

lemma body_roundtrip:
  assumes "sorted (map (\<lambda>e. rune_id_key (ed_id e)) es)" and "list_all (edict_valid n) es"
  shows "\<exists>body. body_integers es = Some body
     \<and> parse_message n body = \<lparr>msg_fields = [], msg_edicts = es, msg_flaws = []\<rparr>
     \<and> (\<forall>v \<in> set body. v \<le> u128_MAX)"
proof (cases "es = []")
  case True
  then show ?thesis by (simp add: body_integers_def)
next
  case False
  from assms obtain ints where "edict_integers \<lparr>id_block = 0, id_tx = 0\<rparr> es = Some ints"
      "parse_edicts n \<lparr>id_block = 0, id_tx = 0\<rparr> ints = (es, [])" "\<forall>v \<in> set ints. v \<le> u128_MAX"
    using edicts_roundtrip [of es "\<lparr>id_block = 0, id_tx = 0\<rparr>" n]
    by (auto simp: zero_key_least list_all_iff)
  with False assms(1) show ?thesis
    by (simp add: body_integers_def sort_key_sorted)
qed

paragraph \<open>The fields\<close>

lemma take_field_miss: "tag \<notin> fst ` set fs \<Longrightarrow> take_field tag ok fs = (None, fs)"
  by (induction fs) auto

lemma take_field_hit:
  "opt_all ok x \<Longrightarrow> tag \<notin> fst ` set rest
     \<Longrightarrow> take_field tag ok (field tag x @ rest) = (x, rest)"
  by (cases x) (simp_all add: field_def opt_all_def take_field_miss)

lemma take_terms_fields:
  assumes "terms_valid t"
    and "Tag_Cap \<notin> fst ` set rest" "Tag_Amount \<notin> fst ` set rest"
    and "Tag_HeightStart \<notin> fst ` set rest" "Tag_HeightEnd \<notin> fst ` set rest"
    and "Tag_OffsetStart \<notin> fst ` set rest" "Tag_OffsetEnd \<notin> fst ` set rest"
  shows "take_terms (terms_fields t @ rest) = (t, rest)"
  using assms
  by (simp add: take_terms_def take_range_def terms_fields_def terms_valid_def take_field_hit
      image_Un)

lemma unat_16_of_nat: "n < 65536 \<Longrightarrow> unat (of_nat n :: 16 word) = n"
  by (simp add: unat_of_nat)

lemma one_code_point:
  assumes "length (code_points s) = 1"
  shows "\<exists>cp. codePointAt0 s = Some cp \<and> cp \<le> 0x10FFFF \<and> fromCodePoint cp = s"
proof (cases s)
  case Nil
  with assms show ?thesis by simp
next
  case c1: (Cons a s1)
  show ?thesis
  proof (cases s1)
    case Nil
    with c1 unat_16_less [of a] show ?thesis
      by (simp add: fromCodePoint_def)
  next
    case c2: (Cons b s2)
    show ?thesis
    proof (cases "is_high_surrogate a \<and> is_low_surrogate b")
      case False
      with assms c1 c2 code_points_nonempty [of "b # s2"] show ?thesis
        by auto
    next
      case True
      with assms c1 c2 code_points_nonempty [of s2] have s2: "s2 = []"
        by auto
      define x where "x = unat a - 0xD800"
      define y where "y = unat b - 0xDC00"
      from True have x: "x < 0x400" "unat a = 0xD800 + x"
        and y: "y < 0x400" "unat b = 0xDC00 + y"
        by (auto simp: is_high_surrogate_def is_low_surrogate_def x_def y_def)
      have cp: "surrogate_pair a b = 0x10000 + (x * 0x400 + y)"
        by (simp add: surrogate_pair_def x_def y_def)
      have "(x * 0x400 + y) div 0x400 = x" and "(x * 0x400 + y) mod 0x400 = y"
        using y(1) by simp_all
      then have "of_nat (0xD800 + (x * 0x400 + y) div 0x400) = (of_nat (unat a) :: 16 word)"
        and "of_nat (0xDC00 + (x * 0x400 + y) mod 0x400) = (of_nat (unat b) :: 16 word)"
        using x(2) y(2) by simp_all
      then have inv: "fromCodePoint (surrogate_pair a b) = [a, b]"
        unfolding cp fromCodePoint_def by simp
      have "x * 0x400 + y \<le> 0xFFFFF"
        using x(1) y(1) by simp
      then have "surrogate_pair a b \<le> 0x10FFFF"
        unfolding cp by simp
      with True c1 c2 s2 inv show ?thesis by simp
    qed
  qed
qed

lemma symbol_field_roundtrip:
  assumes "opt_all (\<lambda>s. length (code_points s) = 1) sy"
  shows "opt_all (\<lambda>v. v \<le> 0x10FFFF) (Option.bind sy codePointAt0)
     \<and> map_option fromCodePoint (Option.bind sy codePointAt0) = sy"
proof (cases sy)
  case None
  then show ?thesis by (simp add: opt_all_def)
next
  case (Some s)
  with assms obtain cp where "codePointAt0 s = Some cp" "cp \<le> 0x10FFFF" "fromCodePoint cp = s"
    using one_code_point [of s] by (auto simp: opt_all_def)
  with Some show ?thesis by (simp add: opt_all_def)
qed

lemma take_etching_fields:
  assumes v: "etching_valid et"
    and rest: "\<forall>k \<in> fst ` set rest. k \<notin> {1, 3, 4, 5, 6, 8, 10, 12, 14, 16, 18}"
  shows "take_etching (et_terms et \<noteq> None) (et_turbo et)
           (field Tag_Divisibility (et_divisibility et)
            @ field Tag_Spacers (et_spacers et)
            @ field Tag_Rune (et_rune et)
            @ field Tag_Symbol (Option.bind (et_symbol et) codePointAt0)
            @ field Tag_Premine (et_premine et)
            @ (case et_terms et of None \<Rightarrow> [] | Some t \<Rightarrow> terms_fields t)
            @ rest)
         = (et, rest)"
proof -
  define tf where "tf = (case et_terms et of None \<Rightarrow> [] | Some t \<Rightarrow> terms_fields t)"
  have tf: "k \<notin> fst ` set tf" if "k \<in> {1, 3, 4, 5, 6}" for k
    using that by (cases "et_terms et") (auto simp: tf_def terms_fields_def)
  have r: "k \<notin> fst ` set rest" if "k \<in> {1, 3, 4, 5, 6, 8, 10, 12, 14, 16, 18}" for k
    using that rest by blast
  from v have cp_ok: "opt_all (\<lambda>v. v \<le> 0x10FFFF) (Option.bind (et_symbol et) codePointAt0)"
    and cp_inv: "map_option fromCodePoint (Option.bind (et_symbol et) codePointAt0) = et_symbol et"
    using symbol_field_roundtrip [of "et_symbol et"] by (simp_all add: etching_valid_def)
  have tn: "tf = []" if "et_terms et = None"
    using that by (simp add: tf_def)
  have tt: "take_terms (tf @ rest) = (t, rest)" if "et_terms et = Some t" for t
  proof -
    from v that have "terms_valid t" by (simp add: etching_valid_def opt_all_def)
    then have "take_terms (terms_fields t @ rest) = (t, rest)"
      using r by (intro take_terms_fields) simp_all
    with that show ?thesis by (simp add: tf_def)
  qed
  from v cp_ok have
    "take_etching (et_terms et \<noteq> None) (et_turbo et)
           (field Tag_Divisibility (et_divisibility et)
            @ field Tag_Spacers (et_spacers et)
            @ field Tag_Rune (et_rune et)
            @ field Tag_Symbol (Option.bind (et_symbol et) codePointAt0)
            @ field Tag_Premine (et_premine et)
            @ tf @ rest)
      = (\<lparr>et_divisibility = et_divisibility et, et_rune = et_rune et,
           et_spacers = et_spacers et,
           et_symbol = map_option fromCodePoint (Option.bind (et_symbol et) codePointAt0),
           et_terms = et_terms et, et_premine = et_premine et, et_turbo = et_turbo et\<rparr>, rest)"
    unfolding take_etching_def
    by (auto simp: take_field_hit etching_valid_def image_Un tf r tt tn)
  then show ?thesis
    by (simp add: cp_inv tf_def)
qed

lemma take_mint_fields:
  assumes "opt_all (\<lambda>i. id_block i \<le> u64_MAX \<and> id_tx i \<le> u32_MAX) m"
    and "Tag_Mint \<notin> fst ` set rest"
  shows "take_mint (mint_fields m @ rest) = (m, rest)"
proof (cases m)
  case None
  with assms(2) show ?thesis
    by (simp add: take_mint_def mint_fields_def take_field_miss)
next
  case (Some i)
  with assms show ?thesis
    by (simp add: take_mint_def mint_fields_def take_field_miss opt_all_def)
qed

lemma etching_flags_cases:
  "etching_flags et =
     (if et_terms et \<noteq> None then (if et_turbo et then 7 else 3)
      else (if et_turbo et then 5 else 1))"
  by (simp add: etching_flags_def)

lemma etching_flags_bits:
  "bit (etching_flags et) Flag_Etching"
  "bit (etching_flags et) Flag_Terms \<longleftrightarrow> et_terms et \<noteq> None"
  "bit (etching_flags et) Flag_Turbo \<longleftrightarrow> et_turbo et"
  "\<not> bit (etching_flags et) Flag_Cenotaph"
  "flags_left (etching_flags et) = 0"
  "etching_flags et \<le> 7"
  "bit (etching_flags et) (Suc 0) \<longleftrightarrow> et_terms et \<noteq> None"
  by (simp_all add: etching_flags_cases flags_left_def bit_iff_odd)

lemma mint_fields_tags: "k \<in> fst ` set (mint_fields m) \<Longrightarrow> k = Tag_Mint"
  by (cases m) (auto simp: mint_fields_def)

lemma take_field_hit_last: "opt_all ok x \<Longrightarrow> take_field tag ok (field tag x) = (x, [])"
  using take_field_hit [of ok x tag "[]"] by simp

lemma take_fields_runestone:
  assumes "runestone_valid n rs"
  shows "take_fields (runestone_fields rs)
     = ((case rs_etching rs of None \<Rightarrow> 0 | Some et \<Rightarrow> etching_flags et),
        rs_etching rs, rs_mint rs, rs_pointer rs, [])"
proof -
  define rest where "rest = mint_fields (rs_mint rs) @ field Tag_Pointer (rs_pointer rs)"
  have tags_in: "k = Tag_Mint \<or> k = Tag_Pointer" if "k \<in> fst ` set rest" for k
    using that mint_fields_tags [of k "rs_mint rs"] by (auto simp: rest_def)
  have tags_pair: "k = Tag_Mint \<or> k = Tag_Pointer" if "(k, b) \<in> set rest" for k b
    using that tags_in [of k] by force
  have tags: "k \<notin> fst ` set rest" if "k \<noteq> Tag_Mint" "k \<noteq> Tag_Pointer" for k
    using that tags_in by blast
  from assms have m: "take_mint rest = (rs_mint rs, field Tag_Pointer (rs_pointer rs))"
    unfolding rest_def by (intro take_mint_fields) (simp_all add: runestone_valid_def)
  from assms have "opt_all (\<lambda>v. v \<le> u32_MAX) (rs_pointer rs)"
    by (cases "rs_pointer rs") (simp_all add: runestone_valid_def opt_all_def)
  then have p: "take_field Tag_Pointer (\<lambda>v. v \<le> u32_MAX) (field Tag_Pointer (rs_pointer rs))
      = (rs_pointer rs, [])"
    by (rule take_field_hit_last)
  show ?thesis
  proof (cases "rs_etching rs")
    case None
    have "take_field Tag_Flags (\<lambda>v. v \<le> u128_MAX) rest = (None, rest)"
      by (intro take_field_miss tags) simp_all
    with None m p show ?thesis
      by (simp add: take_fields_def runestone_fields_def rest_def [symmetric] bit_iff_odd)
  next
    case (Some et)
    define tail where "tail =
        field Tag_Divisibility (et_divisibility et)
        @ field Tag_Spacers (et_spacers et)
        @ field Tag_Rune (et_rune et)
        @ field Tag_Symbol (Option.bind (et_symbol et) codePointAt0)
        @ field Tag_Premine (et_premine et)
        @ (case et_terms et of None \<Rightarrow> [] | Some t \<Rightarrow> terms_fields t)
        @ rest"
    from Some assms have "etching_valid et"
      by (simp add: runestone_valid_def opt_all_def)
    then have e: "take_etching (et_terms et \<noteq> None) (et_turbo et) tail = (et, rest)"
      unfolding tail_def by (intro take_etching_fields) (auto dest: tags_pair)
    have fields: "runestone_fields rs = (Tag_Flags, etching_flags et) # tail"
      using Some by (simp add: runestone_fields_def etching_fields_def tail_def rest_def)
    have "etching_flags et \<le> u128_MAX"
      using etching_flags_bits(6) [of et] by (simp add: u128_MAX_def)
    then show ?thesis
      using Some e m p
      by (simp add: take_fields_def fields etching_flags_bits Let_def)
  qed
qed

lemma build_artifact_runestone:
  assumes "runestone_valid n rs"
  shows "build_artifact n \<lparr>msg_fields = runestone_fields rs, msg_edicts = rs_edicts rs,
                            msg_flaws = []\<rparr> = ArtRunestone rs"
proof -
  define flags where "flags = (case rs_etching rs of None \<Rightarrow> 0 | Some et \<Rightarrow> etching_flags et)"
  have "flags_left 0 = 0"
    by (simp add: flags_left_def)
  then have left: "flags_left flags = 0"
    by (cases "rs_etching rs") (simp_all add: flags_def etching_flags_bits)
  have cen: "\<not> bit flags Flag_Cenotaph"
    by (cases "rs_etching rs") (simp_all add: flags_def etching_flags_bits)
  from assms have "builder_flaws n flags (rs_etching rs) (rs_pointer rs) [] = []"
    by (cases "rs_etching rs"; cases "rs_pointer rs")
      (simp_all add: builder_flaws_def left runestone_valid_def etching_valid_def opt_all_def)
  with cen show ?thesis
    using take_fields_runestone [OF assms]
    by (simp add: build_artifact_def flags_def [symmetric])
qed


lemma bounds_below_u128:
  "u32_MAX \<le> u128_MAX" "u64_MAX \<le> u128_MAX" "MAX_DIVISIBILITY \<le> u128_MAX"
  "u128_MAX \<le> u128_MAX" "22 \<le> u128_MAX" "7 \<le> u128_MAX" "1114111 \<le> u128_MAX"
  by (simp_all add: u32_MAX_def u64_MAX_def u128_MAX_def MAX_DIVISIBILITY_def)

lemma field_is_bounded:
  assumes "opt_all (\<lambda>v. v \<le> b) x" and "b \<le> u128_MAX" and "0 < t" and "t \<le> 22"
  shows "list_all field_bounded (field t x)"
  using assms bounds_below_u128(5)
  by (cases x) (simp_all add: field_def field_bounded_def opt_all_def)

lemma terms_fields_bounded:
  assumes "terms_valid t"
  shows "list_all field_bounded (terms_fields t)"
  using assms unfolding terms_fields_def terms_valid_def list_all_append
  by (intro conjI field_is_bounded [where b = u128_MAX] field_is_bounded [where b = u64_MAX])
    (simp_all add: bounds_below_u128)

lemma etching_fields_bounded:
  assumes "etching_valid et"
  shows "list_all field_bounded (etching_fields et)"
proof -
  from assms have cp: "opt_all (\<lambda>v. v \<le> 1114111) (Option.bind (et_symbol et) codePointAt0)"
    using symbol_field_roundtrip [of "et_symbol et"] by (simp add: etching_valid_def)
  have flags: "field_bounded (Tag_Flags, etching_flags et)"
    using etching_flags_bits(6) [of et] bounds_below_u128(6)
    by (simp add: field_bounded_def)
  have terms: "list_all field_bounded (case et_terms et of None \<Rightarrow> [] | Some t \<Rightarrow> terms_fields t)"
    using assms
    by (cases "et_terms et") (simp_all add: etching_valid_def opt_all_def terms_fields_bounded)
  have "list_all field_bounded (field Tag_Divisibility (et_divisibility et))"
    using assms by (intro field_is_bounded [where b = MAX_DIVISIBILITY])
      (simp_all add: etching_valid_def bounds_below_u128)
  moreover have "list_all field_bounded (field Tag_Spacers (et_spacers et))"
    using assms by (intro field_is_bounded [where b = u32_MAX])
      (simp_all add: etching_valid_def bounds_below_u128)
  moreover have "list_all field_bounded (field Tag_Rune (et_rune et))"
    using assms by (intro field_is_bounded [where b = u128_MAX])
      (simp_all add: etching_valid_def)
  moreover have "list_all field_bounded
      (field Tag_Symbol (Option.bind (et_symbol et) codePointAt0))"
    using cp by (intro field_is_bounded [where b = 1114111])
      (simp_all add: bounds_below_u128)
  moreover have "list_all field_bounded (field Tag_Premine (et_premine et))"
    using assms by (intro field_is_bounded [where b = u128_MAX])
      (simp_all add: etching_valid_def)
  ultimately show ?thesis
    using flags terms by (simp add: etching_fields_def)
qed

lemma runestone_fields_bounded:
  assumes "runestone_valid n rs"
  shows "list_all field_bounded (runestone_fields rs)"
proof -
  have "list_all field_bounded (case rs_etching rs of None \<Rightarrow> [] | Some et \<Rightarrow> etching_fields et)"
    using assms
    by (cases "rs_etching rs")
      (simp_all add: runestone_valid_def opt_all_def etching_fields_bounded)
  moreover have "list_all field_bounded (mint_fields (rs_mint rs))"
    using assms bounds_below_u128
    by (cases "rs_mint rs")
      (simp_all add: runestone_valid_def opt_all_def mint_fields_def field_bounded_def)
  moreover have "opt_all (\<lambda>v. v \<le> u32_MAX) (rs_pointer rs)"
    using assms by (cases "rs_pointer rs") (simp_all add: runestone_valid_def opt_all_def)
  then have "list_all field_bounded (field Tag_Pointer (rs_pointer rs))"
    by (intro field_is_bounded [where b = u32_MAX]) (simp_all add: bounds_below_u128)
  ultimately show ?thesis
    by (simp add: runestone_fields_def)
qed

lemma field_integers_bounded:
  "list_all field_bounded fs
     \<Longrightarrow> Tag_Body \<notin> fst ` set fs \<and> (\<forall>x \<in> set (field_integers fs). x \<le> u128_MAX)"
  by (induction fs rule: field_integers.induct) (auto simp: field_bounded_def)

lemma decipher_encipher:
  assumes v: "runestone_valid (Suc (length pre + length post)) rs"
    and pre: "\<forall>s \<in> set pre. take 2 s \<noteq> [OP_RETURN, OP_13]"
  shows "\<exists>bytes. encipher rs = Some bytes
     \<and> decipher \<lparr>vout = pre @ bytes # post\<rparr> = Some (ArtRunestone rs)"
proof -
  define n where "n = Suc (length pre + length post)"
  from v obtain body where body: "body_integers (rs_edicts rs) = Some body"
      "parse_message n body = \<lparr>msg_fields = [], msg_edicts = rs_edicts rs, msg_flaws = []\<rparr>"
      "\<forall>x \<in> set body. x \<le> u128_MAX"
    using body_roundtrip [of "rs_edicts rs" n] by (auto simp: runestone_valid_def n_def)
  define ints where "ints = field_integers (runestone_fields rs) @ body"
  have enc: "encipher rs = Some (script_of_payload (concat (map encodeVarInt ints)))"
    by (simp add: encipher_def message_integers_def body ints_def)
  have "x < 2 ^ 128" if "x \<in> set ints" for x
  proof -
    from that have "x \<le> u128_MAX"
      using body(3) field_integers_bounded [OF runestone_fields_bounded [OF v]]
      by (auto simp: ints_def)
    then show ?thesis by (simp add: u128_MAX_def)
  qed
  then have ints: "integers (concat (map encodeVarInt ints)) = Some ints"
    by (intro integers_encode) simp
  have "Tag_Body \<notin> fst ` set (runestone_fields rs)"
    using field_integers_bounded [OF runestone_fields_bounded [OF v]] by blast
  then have msg: "parse_message n ints
      = \<lparr>msg_fields = runestone_fields rs, msg_edicts = rs_edicts rs, msg_flaws = []\<rparr>"
    by (simp add: ints_def parse_message_fields body(2))
  have "decipher \<lparr>vout = pre @ script_of_payload (concat (map encodeVarInt ints)) # post\<rparr>
      = Some (ArtRunestone rs)"
    using v by (simp add: decipher_def payload_script [OF pre] ints msg
        build_artifact_runestone n_def [symmetric])
  with enc show ?thesis by simp
qed

subsection \<open>Names of runes\<close>

lemma letter_index_inverse: "is_letter c \<Longrightarrow> letter (letter_index c) = c \<and> letter_index c < 26"
  by (auto simp: is_letter_def letter_def letter_index_def)

lemma rune_to_name_small: "k < 26 \<Longrightarrow> rune_to_name k = [letter k]"
  by (subst rune_to_name.simps) simp

lemma div_mod_26:
  assumes "k < 26"
  shows "((x + 1) * 26 + k) div 26 = x + 1 \<and> ((x + 1) * 26 + k) mod 26 = (k::nat)"
proof -
  have "(k + (x + 1) * 26) div 26 = (x + 1) + k div 26"
    by (rule div_mult_self1) simp
  moreover have "(k + (x + 1) * 26) mod 26 = k mod 26"
    by (rule mod_mult_self1)
  ultimately show ?thesis using assms by (simp add: add.commute)
qed

lemma rune_to_name_step:
  assumes "k < 26"
  shows "rune_to_name ((x + 1) * 26 + k) = rune_to_name x @ [letter k]"
proof -
  define n where "n = (x + 1) * 26 + k"
  have d: "n div 26 = x + 1" "n mod 26 = k"
    using div_mod_26 [OF assms, of x] by (simp_all add: n_def)
  have "\<not> n < 26" by (simp add: n_def)
  then have "rune_to_name n = rune_to_name (n div 26 - 1) @ [letter (n mod 26)]"
    by (subst rune_to_name.simps) simp
  then show ?thesis
    unfolding d by (simp add: n_def)
qed

lemma rune_to_name_value:
  "list_all is_letter cs \<Longrightarrow> rune_to_name (name_value x cs) = rune_to_name x @ cs"
proof (induction cs arbitrary: x)
  case Nil
  show ?case by simp
next
  case (Cons c cs)
  then have "is_letter c" "list_all is_letter cs" by simp_all
  with Cons.IH [of "(x + 1) * 26 + letter_index c"] show ?case
    using letter_index_inverse [of c] rune_to_name_step [of "letter_index c" x]
    by (simp del: One_nat_def add: add.commute mult.commute)
qed

lemma Rune_fromString_inverse:
  assumes "Rune_fromString s = Some v"
  shows "rune_to_name v = s \<and> v \<le> u128_MAX"
proof (cases s)
  case Nil
  with assms show ?thesis by (simp add: Rune_fromString_def)
next
  case (Cons c cs)
  with assms have l: "is_letter c" "list_all is_letter cs"
    and v: "v = name_value (letter_index c) cs" "v \<le> u128_MAX"
    by (auto simp: Rune_fromString_def Let_def split: if_splits)
  from l show ?thesis
    using rune_to_name_value [of cs "letter_index c"] letter_index_inverse [of c]
      rune_to_name_small [of "letter_index c"] v Cons
    by simp
qed

paragraph \<open>Bits of a spacer mask\<close>

lemma bit_above: "n < 2 ^ k \<Longrightarrow> \<not> bit (n :: nat) k"
  by (simp add: bit_iff_odd)

lemma below_of_clear_bit:
  assumes "n < 2 ^ Suc k" and "\<not> bit (n :: nat) k"
  shows "n < 2 ^ k"
proof (rule ccontr)
  assume "\<not> n < 2 ^ k"
  then have "1 \<le> n div 2 ^ k"
    by (simp add: Suc_le_eq div_greater_zero_iff)
  moreover from assms(1) have "n div 2 ^ k < 2"
    by (simp add: less_mult_imp_div_less mult.commute)
  ultimately have "n div 2 ^ k = 1" by simp
  with assms(2) show False by (simp add: bit_iff_odd)
qed

lemma bit_set_top:
  assumes "n < 2 ^ k"
  shows "bit (n + 2 ^ k :: nat) k"
proof -
  have "(n + 2 ^ k) div 2 ^ k = n div 2 ^ k + 1"
    by (rule div_add_self2) simp
  with assms show ?thesis by (simp add: bit_iff_odd)
qed

lemma bit_set_below:
  assumes "i < k"
  shows "bit (n + 2 ^ k :: nat) i = bit n i"
proof -
  from assms obtain d where "k = Suc (i + d)"
    using less_imp_Suc_add by blast
  then have k: "k = i + Suc d" by simp
  have e: "(2::nat) ^ k = 2 ^ Suc d * 2 ^ i"
    unfolding k by (simp only: power_add mult.commute)
  have "(n + 2 ^ Suc d * 2 ^ i) div 2 ^ i = 2 ^ Suc d + n div 2 ^ i"
    by (rule div_mult_self1) simp
  then have f: "(n + 2 ^ k) div 2 ^ i = 2 ^ Suc d + n div 2 ^ i"
    by (simp only: e)
  have "odd ((n + 2 ^ k) div 2 ^ i) = odd (2 ^ Suc d + n div 2 ^ i)"
    by (simp only: f)
  also have "\<dots> = odd (n div 2 ^ i)"
    by simp
  finally show ?thesis
    by (simp only: bit_iff_odd)
qed

paragraph \<open>Spaced names\<close>

lemma scan_spaced_Cons:
  assumes "scan_spaced (c # cs) l sp = Some r"
  shows "(is_letter c \<and> scan_spaced cs (l @ [c]) sp = Some r)
     \<or> (\<not> is_letter c \<and> c = bullet
        \<and> (\<exists>k. length l = Suc k \<and> k < 32 \<and> \<not> bit sp k
               \<and> scan_spaced cs l (sp + 2 ^ k) = Some r))"
proof (cases "is_letter c")
  case True
  with assms show ?thesis by simp
next
  case False
  note nl = this
  show ?thesis
  proof (cases l)
    case Nil
    with assms nl show ?thesis by (simp split: if_splits)
  next
    case (Cons a l0)
    with assms nl show ?thesis by (simp split: if_splits)
  qed
qed

lemma scan_spaced_prefix:
  "scan_spaced cs l sp = Some (l', sp') \<Longrightarrow> \<exists>m. l' = l @ m"
proof (induction cs arbitrary: l sp)
  case Nil
  then show ?case by simp
next
  case (Cons c cs)
  from scan_spaced_Cons [OF Cons.prems] show ?case
  proof (elim disjE conjE exE)
    assume "scan_spaced cs (l @ [c]) sp = Some (l', sp')"
    then obtain m where "l' = (l @ [c]) @ m"
      using Cons.IH by blast
    then show ?thesis by simp
  next
    fix k assume "scan_spaced cs l (sp + 2 ^ k) = Some (l', sp')"
    then show ?thesis using Cons.IH by blast
  qed
qed

lemma scan_spaced_low_bits:
  assumes "scan_spaced cs l sp = Some (l', sp')" and "sp < 2 ^ length l" and "Suc i < length l"
  shows "bit sp' i = bit sp i"
  using assms
proof (induction cs arbitrary: l sp)
  case Nil
  then show ?case by simp
next
  case (Cons c cs)
  from scan_spaced_Cons [OF Cons.prems(1)] show ?case
  proof (elim disjE conjE exE)
    assume sc: "scan_spaced cs (l @ [c]) sp = Some (l', sp')"
    have "sp < 2 ^ length (l @ [c])"
      using Cons.prems(2) by (rule less_le_trans) simp
    moreover have "Suc i < length (l @ [c])"
      using Cons.prems(3) by simp
    ultimately show ?thesis
      using Cons.IH [OF sc] by blast
  next
    fix k assume k: "length l = Suc k" "\<not> bit sp k"
      and sc: "scan_spaced cs l (sp + 2 ^ k) = Some (l', sp')"
    from k Cons.prems(2) have "sp < 2 ^ k"
      using below_of_clear_bit [of sp k] by simp
    then have "sp + 2 ^ k < 2 ^ length l"
      by (simp add: k)
    then have "bit sp' i = bit (sp + 2 ^ k) i"
      using Cons.IH [OF sc _ Cons.prems(3)] by blast
    moreover have "i < k"
      using Cons.prems(3) k by simp
    ultimately show ?thesis
      using bit_set_below [of i k sp] by simp
  qed
qed

lemma scan_spaced_bound:
  assumes "scan_spaced cs l sp = Some (l', sp')" and "sp < 2 ^ length l" and "sp < 2 ^ 32"
  shows "sp' < 2 ^ 32"
  using assms
proof (induction cs arbitrary: l sp)
  case Nil
  then show ?case by simp
next
  case (Cons c cs)
  from scan_spaced_Cons [OF Cons.prems(1)] show ?case
  proof (elim disjE conjE exE)
    assume sc: "scan_spaced cs (l @ [c]) sp = Some (l', sp')"
    have "sp < 2 ^ length (l @ [c])"
      using Cons.prems(2) by (rule less_le_trans) simp
    then show ?thesis
      using Cons.IH [OF sc _ Cons.prems(3)] by blast
  next
    fix k assume k: "length l = Suc k" "\<not> bit sp k" "k < 32"
      and sc: "scan_spaced cs l (sp + 2 ^ k) = Some (l', sp')"
    from k Cons.prems(2) have "sp < 2 ^ k"
      using below_of_clear_bit [of sp k] by simp
    then have s: "sp + 2 ^ k < 2 ^ Suc k"
      by simp
    also have "(2::nat) ^ Suc k \<le> 2 ^ 32"
      using k(3) by (intro power_increasing) simp_all
    finally have "sp + 2 ^ k < 2 ^ 32" .
    moreover from s have "sp + 2 ^ k < 2 ^ length l"
      by (simp add: k)
    ultimately show ?thesis
      using Cons.IH [OF sc] by blast
  qed
qed

lemma drop_last_append:
  assumes "l \<noteq> []"
  shows "drop (length l - 1) (l @ m) = last l # m"
proof -
  have "l @ m = butlast l @ (last l # m)"
    using assms by simp
  moreover have "length (butlast l) = length l - 1"
    by simp
  ultimately show ?thesis
    by (metis append_eq_conv_conj)
qed

lemma scan_spaced_render:
  assumes "scan_spaced cs l sp = Some (l', sp')" and "l \<noteq> []" and "sp < 2 ^ length l"
    and "sp' < 2 ^ (length l' - 1)"
  shows "render_spaced sp' (length l - 1) (drop (length l - 1) l')
     = last l # (if bit sp (length l - 1) then [bullet] else []) @ cs"
  using assms
proof (induction cs arbitrary: l sp)
  case Nil
  then have "l' = l" "sp' = sp" by simp_all
  with Nil show ?case
    using drop_last_append [of l "[]"] bit_above [of sp "length l - 1"] by simp
next
  case (Cons c cs)
  obtain k0 where k0: "length l = Suc k0"
    using Cons.prems(2) by (cases l) auto
  from scan_spaced_Cons [OF Cons.prems(1)] show ?case
  proof (elim disjE conjE exE)
    assume sc: "scan_spaced cs (l @ [c]) sp = Some (l', sp')"
    then obtain m where m: "l' = (l @ [c]) @ m"
      using scan_spaced_prefix by blast
    have b: "sp < 2 ^ length (l @ [c])"
      using Cons.prems(3) by (rule less_le_trans) simp
    have "render_spaced sp' (length (l @ [c]) - 1) (drop (length (l @ [c]) - 1) l')
        = last (l @ [c]) # (if bit sp (length (l @ [c]) - 1) then [bullet] else []) @ cs"
      using Cons.IH [OF sc _ b Cons.prems(4)] by simp
    moreover have "\<not> bit sp (length l)"
      using Cons.prems(3) by (rule bit_above)
    moreover have "drop (length l) l' = c # m"
      using m by simp
    ultimately have tail: "render_spaced sp' (Suc k0) (c # m) = c # cs"
      by (simp add: k0)
    have "bit sp' k0 = bit sp k0"
      using scan_spaced_low_bits [OF sc b, of k0] k0 by simp
    moreover have "drop (length l - 1) l' = last l # c # m"
      using drop_last_append [of l "c # m"] Cons.prems(2) m by simp
    ultimately show ?thesis
      using tail by (simp add: k0)
  next
    fix k assume c: "c = bullet" and k: "length l = Suc k" "\<not> bit sp k"
      and sc: "scan_spaced cs l (sp + 2 ^ k) = Some (l', sp')"
    from k Cons.prems(3) have "sp < 2 ^ k"
      using below_of_clear_bit [of sp k] by simp
    then have b: "sp + 2 ^ k < 2 ^ length l" and top: "bit (sp + 2 ^ k) k"
      by (simp_all add: k bit_set_top)
    show ?thesis
      using Cons.IH [OF sc Cons.prems(2) b Cons.prems(4)] top k c by simp
  qed
qed

lemma bullet_no_letter: "\<not> is_letter bullet"
  by (simp add: is_letter_def bullet_def)

lemma fromString_toString:
  assumes "SpacedRune_fromString s = Inr sr"
  shows "SpacedRune_toString sr = s \<and> sr_spacers sr \<le> u32_MAX \<and> sr_rune sr \<le> u128_MAX"
proof -
  from assms obtain l' where sc: "scan_spaced s [] 0 = Some (l', sr_spacers sr)"
    and l': "l' \<noteq> []" "sr_spacers sr < 2 ^ (length l' - 1)"
    and r: "Rune_fromString l' = Some (sr_rune sr)"
    by (auto simp: SpacedRune_fromString_def split: option.splits prod.splits if_splits)
  from r have name: "rune_to_name (sr_rune sr) = l'" and v: "sr_rune sr \<le> u128_MAX"
    using Rune_fromString_inverse by blast+
  from sc l' obtain c cs where s: "s = c # cs"
    by (cases s) auto
  with sc have c: "is_letter c" and sc': "scan_spaced cs [c] 0 = Some (l', sr_spacers sr)"
    by (auto split: if_splits)
  have "render_spaced (sr_spacers sr) (length [c] - 1) (drop (length [c] - 1) l')
      = last [c] # (if bit (0::nat) (length [c] - 1) then [bullet] else []) @ cs"
    using l'(2) by (intro scan_spaced_render [OF sc']) simp_all
  then have "render_spaced (sr_spacers sr) 0 l' = s"
    by (simp add: s)
  moreover have "sr_spacers sr < 2 ^ 32"
    using scan_spaced_bound [OF sc'] by simp
  ultimately show ?thesis
    using name v by (simp add: SpacedRune_toString_def u32_MAX_def)
qed

subsection \<open>The round trip of a spec\<close>

lemma strict_opt_ok:
  "opt_all is_u8 x \<Longrightarrow> strict_opt u8Strict x = Inr (map_option nat x)"
  "opt_all is_u32 x \<Longrightarrow> strict_opt u32Strict x = Inr (map_option nat x)"
  "opt_all is_u64 x \<Longrightarrow> strict_opt u64Strict x = Inr (map_option nat x)"
  "opt_all is_u128 x \<Longrightarrow> strict_opt u128Strict x = Inr (map_option nat x)"
  by (simp_all add: strict_opt_Inr strict_Inr opt_all_def split: option.splits)

lemma opt_nat_bounds:
  "opt_all is_u8 x \<Longrightarrow> opt_all (\<lambda>v. v \<le> u8_MAX) (map_option nat x)"
  "opt_all is_u32 x \<Longrightarrow> opt_all (\<lambda>v. v \<le> u32_MAX) (map_option nat x)"
  "opt_all is_u64 x \<Longrightarrow> opt_all (\<lambda>v. v \<le> u64_MAX) (map_option nat x)"
  "opt_all is_u128 x \<Longrightarrow> opt_all (\<lambda>v. v \<le> u128_MAX) (map_option nat x)"
  by (simp_all add: opt_all_def is_u8_def is_u32_def is_u64_def is_u128_def nat_le_iff
      split: option.splits)

lemma opt_int_nat:
  "opt_all is_u8 x \<Longrightarrow> map_option int (map_option nat x) = x"
  "opt_all is_u32 x \<Longrightarrow> map_option int (map_option nat x) = x"
  "opt_all is_u64 x \<Longrightarrow> map_option int (map_option nat x) = x"
  "opt_all is_u128 x \<Longrightarrow> map_option int (map_option nat x) = x"
  by (simp_all add: opt_all_def is_u8_def is_u32_def is_u64_def is_u128_def nat_le_iff
      split: option.splits)

lemma to_id_inverse:
  "id_in_domain i \<Longrightarrow> decode_id (to_id i) = i
     \<and> id_block (to_id i) \<le> u64_MAX \<and> id_tx (to_id i) \<le> u32_MAX"
  by (simp add: id_in_domain_def decode_id_def to_id_def is_u64_def is_u32_def nat_le_iff)

lemma encode_mint_ok:
  "opt_all id_in_domain m \<Longrightarrow> encode_mint m = Inr (map_option to_id m)"
  by (cases m) (simp_all add: encode_mint_Inr opt_all_def to_id_def)

lemma encode_edict_ok: "edict_in_domain e \<Longrightarrow> encode_edict e = Inr (to_edict e)"
  by (simp add: encode_edict_Inr to_edict_def to_id_def)

lemma encode_edicts_ok:
  "list_all edict_in_domain es \<Longrightarrow> map_error encode_edict es = Inr (map to_edict es)"
  by (induction es) (simp_all add: encode_edict_ok)

lemma to_edict_inverse:
  "edict_in_domain e \<Longrightarrow> decode_edict (to_edict e) = e"
  using to_id_inverse [of "edict_id e"]
  by (simp add: edict_in_domain_def decode_edict_def to_edict_def is_u128_def is_u32_def)

lemma to_edicts_inverse:
  "list_all edict_in_domain es \<Longrightarrow> map decode_edict (map to_edict es) = es"
  by (induction es) (simp_all add: to_edict_inverse)

lemma encode_range_ok:
  "opt_all range_in_domain h \<Longrightarrow> encode_range h = Inr (to_range h)"
  by (cases h) (simp_all add: encode_range_def to_range_def opt_all_def range_in_domain_def
      strict_opt_ok)

lemma to_range_inverse:
  assumes "opt_all range_in_domain h" and "range_canonical h"
  shows "decode_range (to_range h) = h"
proof (cases h)
  case None
  then show ?thesis by (simp add: decode_range_def to_range_def)
next
  case (Some r)
  with assms have d: "opt_all is_u64 (range_start r)" "opt_all is_u64 (range_end r)"
    and c: "range_start r \<noteq> None \<or> range_end r \<noteq> None"
    by (simp_all add: opt_all_def range_in_domain_def range_canonical_def)
  from c have "map_option nat (range_start r) \<noteq> None \<or> map_option nat (range_end r) \<noteq> None"
    by simp
  with Some d show ?thesis
    by (simp add: decode_range_def to_range_def opt_int_nat)
qed

lemma to_range_bounds:
  assumes "opt_all range_in_domain h"
  shows "opt_all (\<lambda>v. v \<le> u64_MAX) (fst (to_range h))
     \<and> opt_all (\<lambda>v. v \<le> u64_MAX) (snd (to_range h))"
proof (cases h)
  case None
  then show ?thesis by (simp add: to_range_def opt_all_def)
next
  case (Some r)
  with assms show ?thesis
    by (simp add: to_range_def range_in_domain_def opt_nat_bounds opt_all_def [of _ "Some r"])
qed

lemma nat_mult_le:
  assumes "0 \<le> a" and "0 \<le> c" and "a * c \<le> int m"
  shows "nat a * nat c \<le> m"
proof -
  have "int (nat a * nat c) = a * c"
    using assms by simp
  with assms(3) show ?thesis by linarith
qed

lemma encode_terms_ok:
  assumes "terms_in_domain t"
    and "or_zero (terms_amount t) * or_zero (terms_cap t) \<le> int u128_MAX"
  shows "encode_terms (Some t) = Inr (Some (to_terms t))"
proof -
  from assms(1) have d: "opt_all is_u128 (terms_amount t)" "opt_all is_u128 (terms_cap t)"
      "opt_all range_in_domain (terms_height t)" "opt_all range_in_domain (terms_offset t)"
    by (simp_all add: terms_in_domain_def)
  have "the (map_option nat (terms_amount t)) * the (map_option nat (terms_cap t)) \<le> u128_MAX"
    if "terms_amount t \<noteq> None" "terms_cap t \<noteq> None"
  proof -
    from that obtain a c where ac: "terms_amount t = Some a" "terms_cap t = Some c"
      by auto
    with d assms(2) have "0 \<le> a" "0 \<le> c" "a * c \<le> int u128_MAX"
      by (simp_all add: opt_all_def is_u128_def or_zero_def)
    then have "nat a * nat c \<le> u128_MAX"
      by (rule nat_mult_le)
    with ac show ?thesis by simp
  qed
  then have "\<not> (map_option nat (terms_amount t) \<noteq> None \<and> map_option nat (terms_cap t) \<noteq> None
      \<and> the (map_option nat (terms_amount t)) * the (map_option nat (terms_cap t)) > u128_MAX)"
    by (cases "terms_amount t"; cases "terms_cap t") (simp_all add: not_less)
  with d show ?thesis
    by (simp add: encode_terms_def strict_opt_ok encode_range_ok to_terms_def)
qed

lemma to_terms_inverse:
  assumes "terms_in_domain t" and "range_canonical (terms_height t)"
    and "range_canonical (terms_offset t)"
  shows "decode_terms (to_terms t) = t \<and> terms_valid (to_terms t)"
proof -
  from assms(1) have d: "opt_all is_u128 (terms_amount t)" "opt_all is_u128 (terms_cap t)"
      "opt_all range_in_domain (terms_height t)" "opt_all range_in_domain (terms_offset t)"
    by (simp_all add: terms_in_domain_def)
  have "decode_terms (to_terms t)
      = \<lparr>terms_amount = terms_amount t, terms_cap = terms_cap t,
         terms_height = terms_height t, terms_offset = terms_offset t\<rparr>"
    by (simp add: decode_terms_def to_terms_def opt_int_nat(4) [OF d(1)] opt_int_nat(4) [OF d(2)]
        to_range_inverse [OF d(3) assms(2)] to_range_inverse [OF d(4) assms(3)])
  then have "decode_terms (to_terms t) = t"
    by simp
  moreover have "terms_valid (to_terms t)"
    using to_range_bounds [OF d(3)] to_range_bounds [OF d(4)]
      opt_nat_bounds(4) [OF d(1)] opt_nat_bounds(4) [OF d(2)]
    by (simp add: terms_valid_def to_terms_def)
  ultimately show ?thesis by simp
qed

lemma code_points_Nil: "code_points s = [] \<longleftrightarrow> s = []"
  by (induction s rule: code_points.induct) simp_all

lemma one_code_point_symbol_ok:
  assumes "length (code_points s) = 1"
  shows "s \<noteq> [] \<and> (length s = 1 \<or> (length s = 2 \<and> the (codePointAt0 s) \<ge> 0x10000))"
proof (cases s)
  case Nil
  with assms show ?thesis by simp
next
  case c1: (Cons a s1)
  show ?thesis
  proof (cases s1)
    case Nil
    with c1 show ?thesis by simp
  next
    case c2: (Cons b s2)
    show ?thesis
    proof (cases "is_high_surrogate a \<and> is_low_surrogate b")
      case True
      with assms c1 c2 have "code_points s2 = []"
        by simp
      then have "s2 = []"
        by (simp add: code_points_Nil)
      with True c1 c2 show ?thesis
        by (simp add: surrogate_pair_def)
    next
      case False
      with assms c1 c2 have "code_points (b # s2) = []"
        by auto
      then show ?thesis
        by (simp add: code_points_Nil)
    qed
  qed
qed

lemma symbol_ok_one:
  assumes "opt_all (\<lambda>s. length (code_points s) = 1) sy"
  shows "symbol_ok sy \<and> (case sy of None \<Rightarrow> None | Some s \<Rightarrow> if s = [] then None else Some s) = sy"
proof (cases sy)
  case None
  then show ?thesis by (simp add: symbol_ok_def)
next
  case (Some s)
  with assms have "length (code_points s) = 1"
    by (simp add: opt_all_def)
  from one_code_point_symbol_ok [OF this] Some show ?thesis
    by (simp add: symbol_ok_def)
qed

lemma encode_spaced_rune_ok:
  assumes "opt_all (\<lambda>s. s \<noteq> [] \<and> \<not> isl (SpacedRune_fromString s)) name"
  shows "\<exists>sro. encode_spaced_rune name = Inr sro
     \<and> opt_all (\<lambda>sr. sr_spacers sr \<le> u32_MAX \<and> sr_rune sr \<le> u128_MAX) sro
     \<and> map_option SpacedRune_toString sro = name"
proof (cases name)
  case None
  then show ?thesis by (simp add: encode_spaced_rune_def opt_all_def)
next
  case (Some s)
  with assms have s: "s \<noteq> []" and "\<not> isl (SpacedRune_fromString s)"
    by (simp_all add: opt_all_def)
  then obtain sr where sr: "SpacedRune_fromString s = Inr sr"
    by (cases "SpacedRune_fromString s") simp_all
  from fromString_toString [OF sr] Some s sr show ?thesis
    by (simp add: encode_spaced_rune_def opt_all_def)
qed

lemma encode_spacers_ok:
  assumes "opt_all (\<lambda>sr. sr_spacers sr \<le> u32_MAX \<and> sr_rune sr \<le> u128_MAX) sro"
  shows "\<exists>sp. encode_spacers sro = Inr sp \<and> opt_all (\<lambda>v. v \<le> u32_MAX) sp
     \<and> (case sp of None \<Rightarrow> 0 | Some v \<Rightarrow> v) = (case sro of None \<Rightarrow> 0 | Some sr \<Rightarrow> sr_spacers sr)"
proof (cases sro)
  case None
  then show ?thesis by (simp add: encode_spacers_def opt_all_def)
next
  case (Some sr)
  with assms have b: "sr_spacers sr \<le> u32_MAX"
    by (simp add: opt_all_def)
  then have "u32Strict (int (sr_spacers sr)) = Inr (sr_spacers sr)"
    by (simp add: u32Strict_def)
  with Some b show ?thesis
    by (simp add: encode_spacers_def opt_all_def)
qed

lemma encode_terms_opt_ok:
  assumes "opt_all terms_in_domain ts"
    and "or_zero (Option.bind ts terms_amount) * or_zero (Option.bind ts terms_cap)
           \<le> int u128_MAX"
  shows "encode_terms ts = Inr (map_option to_terms ts)"
proof (cases ts)
  case None
  then show ?thesis by (simp add: encode_terms_def)
next
  case (Some t)
  with assms show ?thesis
    by (simp add: encode_terms_ok opt_all_def)
qed

lemma or_zero_nat:
  "opt_all is_u128 x \<Longrightarrow> int (case map_option nat x of None \<Rightarrow> 0 | Some v \<Rightarrow> v) = or_zero x"
  by (cases x) (simp_all add: or_zero_def opt_all_def is_u128_def)

lemma or_zero_nonneg: "opt_all is_u128 x \<Longrightarrow> 0 \<le> or_zero x"
  by (cases x) (simp_all add: or_zero_def opt_all_def is_u128_def)

lemma terms_or_zero:
  assumes "opt_all terms_in_domain ts"
  shows "opt_all is_u128 (Option.bind ts terms_amount)
     \<and> opt_all is_u128 (Option.bind ts terms_cap)"
  using assms by (cases ts) (simp_all add: opt_all_def terms_in_domain_def)

lemma supply_fits:
  assumes p: "opt_all is_u128 pm" and t: "opt_all terms_in_domain ts"
    and s: "or_zero pm
        + or_zero (Option.bind ts terms_amount) * or_zero (Option.bind ts terms_cap)
        \<le> int u128_MAX"
  shows "\<not> supply_overflow
      \<lparr>et_divisibility = d, et_rune = ru, et_spacers = sp, et_symbol = sy,
       et_terms = map_option to_terms ts, et_premine = map_option nat pm, et_turbo = tu\<rparr>"
proof -
  define pn where "pn = (case map_option nat pm of None \<Rightarrow> 0 | Some v \<Rightarrow> v)"
  define an where "an = (case map_option nat (Option.bind ts terms_amount) of
      None \<Rightarrow> 0 | Some v \<Rightarrow> v)"
  define cn where "cn = (case map_option nat (Option.bind ts terms_cap) of
      None \<Rightarrow> 0 | Some v \<Rightarrow> v)"
  from terms_or_zero [OF t] have ta: "opt_all is_u128 (Option.bind ts terms_amount)"
    and tc: "opt_all is_u128 (Option.bind ts terms_cap)"
    by simp_all
  have i: "int pn = or_zero pm" "int an = or_zero (Option.bind ts terms_amount)"
      "int cn = or_zero (Option.bind ts terms_cap)"
    using or_zero_nat [OF p] or_zero_nat [OF ta] or_zero_nat [OF tc]
    by (simp_all add: pn_def an_def cn_def)
  from s have "int (pn + an * cn) \<le> int u128_MAX"
    by (simp add: i)
  then have le: "pn + an * cn \<le> u128_MAX"
    by linarith
  then have le2: "an * cn \<le> u128_MAX"
    by linarith
  have "supply_overflow
      \<lparr>et_divisibility = d, et_rune = ru, et_spacers = sp, et_symbol = sy,
       et_terms = map_option to_terms ts, et_premine = map_option nat pm, et_turbo = tu\<rparr>
      = (an * cn > u128_MAX \<or> pn + an * cn > u128_MAX)"
    by (cases ts; cases pm)
      (simp_all add: supply_overflow_def Let_def an_def cn_def pn_def to_terms_def)
  with le le2 show ?thesis
    by (simp add: not_less)
qed

lemma terms_opt_inverse:
  assumes "opt_all terms_in_domain ts"
    and "opt_all (\<lambda>t. range_canonical (terms_height t) \<and> range_canonical (terms_offset t)) ts"
  shows "map_option decode_terms (map_option to_terms ts) = ts
     \<and> opt_all terms_valid (map_option to_terms ts)"
proof (cases ts)
  case None
  then show ?thesis by (simp add: opt_all_def)
next
  case (Some t)
  with assms have "terms_in_domain t" "range_canonical (terms_height t)"
      "range_canonical (terms_offset t)"
    by (simp_all add: opt_all_def)
  from to_terms_inverse [OF this] Some show ?thesis
    by (simp add: opt_all_def)
qed

lemma divisibility_ok:
  assumes "opt_all is_u8 d" and "opt_all (\<lambda>d. d \<le> int MAX_DIVISIBILITY) d"
  shows "\<not> (map_option nat d \<noteq> None \<and> the (map_option nat d) > MAX_DIVISIBILITY)
     \<and> opt_all (\<lambda>v. v \<le> MAX_DIVISIBILITY) (map_option nat d)"
  using assms by (cases d) (simp_all add: opt_all_def is_u8_def not_less nat_le_iff)

lemma encode_etching_ok:
  assumes d: "etching_in_domain e" and c: "etching_canonical e"
  shows "\<exists>et cm. encode_etching e = Inr (et, cm) \<and> etching_valid et \<and> decode_etching et = e"
proof -
  from d have dd: "opt_all is_u8 (divisibility e)" and dp: "opt_all is_u128 (premine e)"
    and dt: "opt_all terms_in_domain (terms e)"
    by (simp_all add: etching_in_domain_def)
  from c have cn: "opt_all (\<lambda>s. s \<noteq> [] \<and> \<not> isl (SpacedRune_fromString s)) (runeName e)"
    and cs: "opt_all (\<lambda>s. length (code_points s) = 1) (symbol e)"
    and cd: "opt_all (\<lambda>d. d \<le> int MAX_DIVISIBILITY) (divisibility e)"
    and ct: "opt_all (\<lambda>t. range_canonical (terms_height t) \<and> range_canonical (terms_offset t))
               (terms e)"
    and su: "spec_supply e \<le> int u128_MAX"
    and tu: "turbo e \<noteq> None"
    by (simp_all add: etching_canonical_def)
  from encode_spaced_rune_ok [OF cn] obtain sro
    where sro: "encode_spaced_rune (runeName e) = Inr sro"
      and srb: "opt_all (\<lambda>sr. sr_spacers sr \<le> u32_MAX \<and> sr_rune sr \<le> u128_MAX) sro"
      and srn: "map_option SpacedRune_toString sro = runeName e"
    by blast
  from encode_spacers_ok [OF srb] obtain sp
    where sp: "encode_spacers sro = Inr sp" and spb: "opt_all (\<lambda>v. v \<le> u32_MAX) sp"
      and spv: "(case sp of None \<Rightarrow> 0 | Some v \<Rightarrow> v)
                = (case sro of None \<Rightarrow> 0 | Some sr \<Rightarrow> sr_spacers sr)"
    by blast
  from symbol_ok_one [OF cs] have sok: "symbol_ok (symbol e)"
    and sy: "(case symbol e of None \<Rightarrow> None | Some s \<Rightarrow> if s = [] then None else Some s)
             = symbol e"
    by simp_all
  from terms_or_zero [OF dt] have ta: "opt_all is_u128 (Option.bind (terms e) terms_amount)"
    and tc: "opt_all is_u128 (Option.bind (terms e) terms_cap)"
    by simp_all
  from su or_zero_nonneg [OF dp]
  have "or_zero (Option.bind (terms e) terms_amount) * or_zero (Option.bind (terms e) terms_cap)
      \<le> int u128_MAX"
    by (simp add: spec_supply_def)
  from encode_terms_opt_ok [OF dt this]
  have tm: "encode_terms (terms e) = Inr (map_option to_terms (terms e))" .
  from tu obtain b where b: "turbo e = Some b"
    by auto
  from divisibility_ok [OF dd cd]
  have dv: "\<not> (map_option nat (divisibility e) \<noteq> None
              \<and> the (map_option nat (divisibility e)) > MAX_DIVISIBILITY)"
    and dvb: "opt_all (\<lambda>v. v \<le> MAX_DIVISIBILITY) (map_option nat (divisibility e))"
    by simp_all
  define et where "et =
    \<lparr>et_divisibility = map_option nat (divisibility e), et_rune = map_option sr_rune sro,
     et_spacers = sp, et_symbol = symbol e, et_terms = map_option to_terms (terms e),
     et_premine = map_option nat (premine e), et_turbo = b\<rparr>"
  have enc: "encode_etching e = Inr (et, map_option commitment (map_option sr_rune sro))"
    unfolding encode_etching_def Let_def
    using dv
    by (simp add: sro sok strict_opt_ok(1) [OF dd] strict_opt_ok(4) [OF dp] sp sy tm b et_def)
  have rb: "opt_all (\<lambda>v. v \<le> u128_MAX) (map_option sr_rune sro)"
    using srb by (cases sro) (simp_all add: opt_all_def)
  from su have su': "or_zero (premine e)
      + or_zero (Option.bind (terms e) terms_amount) * or_zero (Option.bind (terms e) terms_cap)
      \<le> int u128_MAX"
    by (simp add: spec_supply_def)
  have so: "\<not> supply_overflow et"
    unfolding et_def by (rule supply_fits [OF dp dt su'])
  from terms_opt_inverse [OF dt ct]
  have ti: "map_option decode_terms (map_option to_terms (terms e)) = terms e"
    and tv: "opt_all terms_valid (map_option to_terms (terms e))"
    by simp_all
  have valid: "etching_valid et"
    unfolding etching_valid_def
    using dvb rb spb cs tv opt_nat_bounds(4) [OF dp] so
    by (simp add: et_def)
  have name: "map_option
       (\<lambda>r. SpacedRune_toString
              \<lparr>sr_rune = r, sr_spacers = (case sp of None \<Rightarrow> 0 | Some v \<Rightarrow> v)\<rparr>)
       (map_option sr_rune sro) = runeName e"
  proof (cases sro)
    case None
    with srn show ?thesis by simp
  next
    case (Some a)
    with srn spv show ?thesis by (simp add: SpacedRune_toString_def)
  qed
  have "decode_etching et =
      \<lparr>runeName = runeName e, divisibility = divisibility e, premine = premine e,
       symbol = symbol e, terms = terms e, turbo = turbo e\<rparr>"
    unfolding decode_etching_def
    using name
    by (simp add: et_def opt_int_nat(1) [OF dd] opt_int_nat(4) [OF dp] ti b)
  then have "decode_etching et = e"
    by simp
  with enc valid show ?thesis
    by blast
qed

lemma to_edict_valid:
  assumes "edict_in_domain e" and "edict_canonical n e"
  shows "edict_valid n (to_edict e)"
  using assms
  by (simp add: edict_in_domain_def edict_canonical_def edict_valid_def to_edict_def to_id_def
      id_in_domain_def id_flawed_def is_u64_def is_u32_def is_u128_def nat_le_iff not_less)

lemma key_mono:
  assumes "(a, b) \<le> (c, d)" and "0 \<le> a" and "0 \<le> b" and "0 \<le> c" and "0 \<le> (d::int)"
  shows "(nat a, nat b) \<le> (nat c, nat d)"
  using assms by (auto simp: less_eq_prod_def)

lemma to_edicts_sorted:
  assumes "list_all edict_in_domain es" and "sorted (map edict_key es)"
  shows "sorted (map (\<lambda>e. rune_id_key (ed_id e)) (map to_edict es))"
proof -
  have "sorted_wrt (\<lambda>x y. edict_key x \<le> edict_key y) es"
    using assms(2) by (simp add: sorted_map)
  then have "sorted_wrt (\<lambda>x y. rune_id_key (ed_id (to_edict x))
      \<le> rune_id_key (ed_id (to_edict y))) es"
  proof (rule sorted_wrt_mono_rel [rotated])
    fix x y
    assume "x \<in> set es" "y \<in> set es" and k: "edict_key x \<le> edict_key y"
    with assms(1) have "edict_in_domain x" "edict_in_domain y"
      by (simp_all add: list_all_iff)
    then have "0 \<le> block (edict_id x)" "0 \<le> tx (edict_id x)"
        "0 \<le> block (edict_id y)" "0 \<le> tx (edict_id y)"
      by (simp_all add: edict_in_domain_def id_in_domain_def is_u64_def is_u32_def)
    with k have "(nat (block (edict_id x)), nat (tx (edict_id x)))
        \<le> (nat (block (edict_id y)), nat (tx (edict_id y)))"
      unfolding edict_key_def by (rule key_mono)
    then show "rune_id_key (ed_id (to_edict x)) \<le> rune_id_key (ed_id (to_edict y))"
      by (simp add: rune_id_key_def to_edict_def to_id_def)
  qed
  then show ?thesis
    by (simp add: sorted_map comp_def)
qed

lemma to_edicts_valid:
  "list_all edict_in_domain es \<Longrightarrow> list_all (edict_canonical n) es
     \<Longrightarrow> list_all (edict_valid n) (map to_edict es)"
  by (induction es) (simp_all add: to_edict_valid)

lemma build_runestone_ok:
  assumes c: "canonical n r"
  shows "\<exists>rs cm. build_runestone r = Inr (rs, cm) \<and> runestone_valid n rs
     \<and> decode_runestone rs = r"
proof -
  define es where "es = (case edicts r of None \<Rightarrow> [] | Some es \<Rightarrow> es)"
  from c have dm: "opt_all id_in_domain (mint r)" and dp: "opt_all is_u32 (pointer r)"
    and de: "opt_all etching_in_domain (etching r)"
    and dd: "opt_all (list_all edict_in_domain) (edicts r)"
    and cp: "opt_all (\<lambda>p. p < int n) (pointer r)"
    and ce: "opt_all (\<lambda>es. es \<noteq> [] \<and> sorted (map edict_key es)
                \<and> list_all (edict_canonical n) es) (edicts r)"
    and ct: "opt_all etching_canonical (etching r)"
    by (simp_all add: canonical_def in_domain_def)
  have es: "list_all edict_in_domain es" "sorted (map edict_key es)"
      "list_all (edict_canonical n) es"
    using dd ce by (simp_all add: es_def opt_all_def split: option.splits)
  have inv: "(if map to_edict es \<noteq> [] then Some (map decode_edict (map to_edict es)) else None)
      = edicts r"
  proof (cases "edicts r")
    case None
    then show ?thesis by (simp add: es_def)
  next
    case (Some xs)
    with ce have "xs \<noteq> []" by (simp add: opt_all_def)
    with Some es(1) to_edicts_inverse [of xs] show ?thesis
      by (simp add: es_def)
  qed
  have "\<exists>eto cm. (case etching r of None \<Rightarrow> Inr (None, None)
          | Some etchingSpec \<Rightarrow>
              bind_error (encode_etching etchingSpec) (\<lambda>(et, c). Inr (Some et, c)))
        = Inr (eto, cm)
      \<and> opt_all etching_valid eto \<and> map_option decode_etching eto = etching r"
  proof (cases "etching r")
    case None
    then show ?thesis by (simp add: opt_all_def)
  next
    case (Some e)
    with de ct have "etching_in_domain e" "etching_canonical e"
      by (simp_all add: opt_all_def)
    from encode_etching_ok [OF this] obtain et cm
      where "encode_etching e = Inr (et, cm)" "etching_valid et" "decode_etching et = e"
      by blast
    with Some show ?thesis
      by (simp add: opt_all_def)
  qed
  then obtain eto cm where et: "(case etching r of None \<Rightarrow> Inr (None, None)
          | Some etchingSpec \<Rightarrow>
              bind_error (encode_etching etchingSpec) (\<lambda>(et, c). Inr (Some et, c)))
        = Inr (eto, cm)"
    and etv: "opt_all etching_valid eto" and etd: "map_option decode_etching eto = etching r"
    by blast
  define rs where "rs = \<lparr>rs_mint = map_option to_id (mint r),
      rs_pointer = map_option nat (pointer r), rs_edicts = map to_edict es,
      rs_etching = eto\<rparr>"
  have build: "build_runestone r = Inr (rs, cm)"
    unfolding build_runestone_def
    by (simp add: encode_mint_ok [OF dm] strict_opt_ok(2) [OF dp]
        encode_edicts_ok [OF es(1)] es_def [symmetric] et rs_def)
  have mv: "opt_all (\<lambda>i. id_block i \<le> u64_MAX \<and> id_tx i \<le> u32_MAX) (map_option to_id (mint r))"
    and mi: "map_option decode_id (map_option to_id (mint r)) = mint r"
    using dm to_id_inverse by (simp_all add: opt_all_def split: option.splits)
  have pv: "opt_all (\<lambda>p. p < n \<and> p \<le> u32_MAX) (map_option nat (pointer r))"
    using dp cp by (cases "pointer r") (auto simp: opt_all_def is_u32_def nat_le_iff)
  have valid: "runestone_valid n rs"
    unfolding runestone_valid_def
    using mv pv to_edicts_valid [OF es(1) es(3)] to_edicts_sorted [OF es(1) es(2)] etv
    by (simp add: rs_def)
  have "decode_runestone rs
      = \<lparr>mint = mint r, pointer = pointer r, etching = etching r, edicts = edicts r\<rparr>"
    unfolding decode_runestone_def
    using inv
    by (auto simp: rs_def mi opt_int_nat(2) [OF dp] etd split: if_splits)
  then have "decode_runestone rs = r"
    by simp
  with build valid show ?thesis
    by blast
qed

text \<open>Claim C1, as stated: for every well-formed \<open>RunestoneSpec\<close> \<open>r\<close>,
  \<open>tryDecodeRunestone\<close> of a transaction whose output script holds the bytes of
  \<open>encodeRunestone r\<close> is a \<open>RunestoneSpec\<close> equal to \<open>r\<close>. Four specs that
  \<open>encodeRunestone\<close> accepts come back changed or not at all: an empty list of edicts
  comes back as no edicts (lines 314-325); an etching without \<open>turbo\<close> comes back with
  \<open>turbo\<close> false (lines 223 and 301); the pointer 1 in a transaction of one output
  comes back as a cenotaph with the flaw \<open>edict_output\<close>; edicts out of the order of
  their ids come back in that order.\<close>

theorem accepted_spec_does_not_round_trip:
  "in_domain \<lparr>mint = None, pointer = None, etching = None, edicts = Some []\<rparr>
   \<and> encodeRunestone \<lparr>mint = None, pointer = None, etching = None, edicts = Some []\<rparr>
       = Inr \<lparr>encodedRunestone = [0x6a, 0x5d], etchingCommitment = None\<rparr>
   \<and> tryDecodeRunestone \<lparr>vout = [[0x6a, 0x5d]]\<rparr>
       = Some (DecodedRunestone
                 \<lparr>mint = None, pointer = None, etching = None, edicts = None\<rparr>)
   \<and> \<lparr>mint = None, pointer = None, etching = None, edicts = None\<rparr>
       \<noteq> \<lparr>mint = None, pointer = None, etching = None, edicts = Some []\<rparr>
   \<and> encodeRunestone
        \<lparr>mint = None, pointer = None,
         etching = Some \<lparr>runeName = None, divisibility = None, premine = None, symbol = None,
                         terms = None, turbo = None\<rparr>,
         edicts = None\<rparr>
       = Inr \<lparr>encodedRunestone = [0x6a, 0x5d, 2, 2, 1], etchingCommitment = None\<rparr>
   \<and> tryDecodeRunestone \<lparr>vout = [[0x6a, 0x5d, 2, 2, 1]]\<rparr>
       = Some (DecodedRunestone
                 \<lparr>mint = None, pointer = None,
                  etching = Some \<lparr>runeName = None, divisibility = None, premine = None,
                                  symbol = None, terms = None, turbo = Some False\<rparr>,
                  edicts = None\<rparr>)
   \<and> encodeRunestone \<lparr>mint = None, pointer = Some 1, etching = None, edicts = None\<rparr>
       = Inr \<lparr>encodedRunestone = [0x6a, 0x5d, 2, 22, 1], etchingCommitment = None\<rparr>
   \<and> tryDecodeRunestone \<lparr>vout = [[0x6a, 0x5d, 2, 22, 1]]\<rparr>
       = Some (DecodedCenotaph
                 \<lparr>flaws = [''edict_output''], cenotaph_etching = None, cenotaph_mint = None\<rparr>)
   \<and> encodeRunestone
        \<lparr>mint = None, pointer = None, etching = None,
         edicts = Some [\<lparr>edict_id = \<lparr>block = 2, tx = 0\<rparr>, edict_amount = 5, edict_output = 0\<rparr>,
                        \<lparr>edict_id = \<lparr>block = 1, tx = 0\<rparr>, edict_amount = 7, edict_output = 0\<rparr>]\<rparr>
       = Inr \<lparr>encodedRunestone = [0x6a, 0x5d, 9, 0, 1, 0, 7, 0, 1, 0, 5, 0],
              etchingCommitment = None\<rparr>
   \<and> tryDecodeRunestone \<lparr>vout = [[0x6a, 0x5d, 9, 0, 1, 0, 7, 0, 1, 0, 5, 0]]\<rparr>
       = Some (DecodedRunestone
                 \<lparr>mint = None, pointer = None, etching = None,
                  edicts = Some [\<lparr>edict_id = \<lparr>block = 1, tx = 0\<rparr>, edict_amount = 7,
                                  edict_output = 0\<rparr>,
                                 \<lparr>edict_id = \<lparr>block = 2, tx = 0\<rparr>, edict_amount = 5,
                                  edict_output = 0\<rparr>]\<rparr>)"
  by (simp add: encode_eval decode_eval rune_id_key_def delta_def in_domain_def opt_all_def)

text \<open>Claim C1, amended: for every \<open>RunestoneSpec\<close> \<open>r\<close> in canonical form for the
  number of outputs of the transaction, \<open>encodeRunestone r\<close> returns, and
  \<open>tryDecodeRunestone\<close> of a transaction that holds the encoded script as its first
  output beginning with \<open>OP_RETURN OP_13\<close> is the \<open>RunestoneSpec\<close> \<open>r\<close> itself.\<close>

theorem canonical_spec_round_trips:
  assumes c: "canonical (Suc (length pre + length post)) r"
    and pre: "\<forall>s \<in> set pre. take 2 s \<noteq> [OP_RETURN, OP_13]"
  shows "\<exists>out. encodeRunestone r = Inr out
     \<and> tryDecodeRunestone \<lparr>vout = pre @ encodedRunestone out # post\<rparr>
         = Some (DecodedRunestone r)"
proof -
  from build_runestone_ok [OF c] obtain rs cm
    where b: "build_runestone r = Inr (rs, cm)"
      and v: "runestone_valid (Suc (length pre + length post)) rs"
      and d: "decode_runestone rs = r"
    by blast
  from decipher_encipher [OF v pre] obtain bytes
    where e: "encipher rs = Some bytes"
      and dec: "decipher \<lparr>vout = pre @ bytes # post\<rparr> = Some (ArtRunestone rs)"
    by blast
  from b e have "encodeRunestone r
      = Inr \<lparr>encodedRunestone = bytes, etchingCommitment = cm\<rparr>"
    by (simp add: encodeRunestone_def)
  moreover from dec d
  have "tryDecodeRunestone \<lparr>vout = pre @ bytes # post\<rparr> = Some (DecodedRunestone r)"
    by (simp add: tryDecodeRunestone_def)
  ultimately show ?thesis
    by simp
qed

theorem canonical_spec_round_trips_witness:
  "canonical 3
     \<lparr>mint = Some \<lparr>block = 1, tx = 2\<rparr>, pointer = Some 0,
      etching = Some \<lparr>runeName = Some [65, 0x2022, 66], divisibility = Some 2,
                      premine = Some 10, symbol = Some [36],
                      terms = Some \<lparr>terms_amount = Some 3, terms_cap = Some 4,
                                    terms_height = Some \<lparr>range_start = Some 5,
                                                         range_end = None\<rparr>,
                                    terms_offset = None\<rparr>,
                      turbo = Some True\<rparr>,
      edicts = Some [\<lparr>edict_id = \<lparr>block = 1, tx = 3\<rparr>, edict_amount = 7,
                      edict_output = 1\<rparr>]\<rparr>
   \<and> take 2 [0x76, 0xa9] \<noteq> [OP_RETURN, OP_13]
   \<and> encodeRunestone
        \<lparr>mint = Some \<lparr>block = 1, tx = 2\<rparr>, pointer = Some 0,
         etching = Some \<lparr>runeName = Some [65, 0x2022, 66], divisibility = Some 2,
                         premine = Some 10, symbol = Some [36],
                         terms = Some \<lparr>terms_amount = Some 3, terms_cap = Some 4,
                                       terms_height = Some \<lparr>range_start = Some 5,
                                                            range_end = None\<rparr>,
                                       terms_offset = None\<rparr>,
                         turbo = Some True\<rparr>,
         edicts = Some [\<lparr>edict_id = \<lparr>block = 1, tx = 3\<rparr>, edict_amount = 7,
                         edict_output = 1\<rparr>]\<rparr>
       = Inr \<lparr>encodedRunestone =
                [0x6a, 0x5d, 29, 2, 7, 1, 2, 3, 1, 4, 27, 5, 36, 6, 10, 8, 4, 10, 3, 12, 5,
                 20, 1, 20, 2, 22, 0, 0, 1, 3, 7, 1],
              etchingCommitment = Some [27]\<rparr>
   \<and> tryDecodeRunestone
        \<lparr>vout = [[0x76, 0xa9],
                  [0x6a, 0x5d, 29, 2, 7, 1, 2, 3, 1, 4, 27, 5, 36, 6, 10, 8, 4, 10, 3, 12, 5,
                   20, 1, 20, 2, 22, 0, 0, 1, 3, 7, 1],
                  [0x6a]]\<rparr>
       = Some (DecodedRunestone
           \<lparr>mint = Some \<lparr>block = 1, tx = 2\<rparr>, pointer = Some 0,
            etching = Some \<lparr>runeName = Some [65, 0x2022, 66], divisibility = Some 2,
                            premine = Some 10, symbol = Some [36],
                            terms = Some \<lparr>terms_amount = Some 3, terms_cap = Some 4,
                                          terms_height = Some \<lparr>range_start = Some 5,
                                                               range_end = None\<rparr>,
                                          terms_offset = None\<rparr>,
                            turbo = Some True\<rparr>,
            edicts = Some [\<lparr>edict_id = \<lparr>block = 1, tx = 3\<rparr>, edict_amount = 7,
                            edict_output = 1\<rparr>]\<rparr>)"
  using canonical_spec_round_trips
    [of "[[0x76, 0xa9]]" "[[0x6a]]"
     "\<lparr>mint = Some \<lparr>block = 1, tx = 2\<rparr>, pointer = Some 0,
       etching = Some \<lparr>runeName = Some [65, 0x2022, 66], divisibility = Some 2,
                       premine = Some 10, symbol = Some [36],
                       terms = Some \<lparr>terms_amount = Some 3, terms_cap = Some 4,
                                     terms_height = Some \<lparr>range_start = Some 5,
                                                          range_end = None\<rparr>,
                                     terms_offset = None\<rparr>,
                       turbo = Some True\<rparr>,
       edicts = Some [\<lparr>edict_id = \<lparr>block = 1, tx = 3\<rparr>, edict_amount = 7,
                       edict_output = 1\<rparr>]\<rparr>"]
  by (simp add: canonical_def in_domain_def opt_all_def id_in_domain_def edict_in_domain_def
      etching_in_domain_def terms_in_domain_def range_in_domain_def is_u8_def is_u32_def
      is_u64_def is_u128_def edict_canonical_def edict_key_def etching_canonical_def
      range_canonical_def spec_supply_def or_zero_def encode_eval name_eval commitment_27
      rune_id_key_def delta_def)

end
